theory Spec2Isabelle
  imports Complex_Main "HOL-Library.Word"
begin

section \<open>Characters and the character source\<close>

text \<open>
  \<^verbatim>\<open>Accumulate(char c, ..., std::function<char()> NextChar)\<close> pulls its input from a
  callback. The model passes the pending input as a \<open>string\<close>: the character held in the
  variable \<open>c\<close> is the head of the string (\<open>cur\<close>), and each call \<open>c = NextChar()\<close> drops
  it (\<open>NextChar\<close>). Past the end of the string the source delivers the terminator
  \<open>'\0'\<close> for ever, as reading a C string does. No branch of the parsers consumes
  \<open>'\0'\<close>, so every run over such a source ends.
\<close>

definition cur :: "string \<Rightarrow> char" where
  "cur s = (case s of [] \<Rightarrow> CHR 0x00 | c # _ \<Rightarrow> c)"

definition NextChar :: "string \<Rightarrow> string" where
  "NextChar s = tl s"

text \<open>\<open>isdigit\<close> and \<open>toupper\<close> of the C locale, and the value \<open>c - '0'\<close> converted to
  \<open>unsigned int\<close>.\<close>

definition isdigit :: "char \<Rightarrow> bool" where
  "isdigit c \<longleftrightarrow> (48::nat) \<le> of_char c \<and> (of_char c :: nat) \<le> 57"

definition toupper :: "char \<Rightarrow> char" where
  "toupper c = (if (97::nat) \<le> of_char c \<and> (of_char c :: nat) \<le> 122
                then char_of ((of_char c :: nat) - 32) else c)"

definition digit_of :: "char \<Rightarrow> 32 word" where
  "digit_of c = of_nat (of_char c) - 48"

section \<open>NumericConverter\<close>

text \<open>
  The fields of the class. Its declaration, in \<open>NumericConverter.h\<close>, is not among the
  sources; the types are those of the uses. \<open>lvalue\<close> is compared with the largest
  \<open>uint32_t\<close> and returned as one. \<open>fives\<close> and \<open>twos\<close> are read into \<open>const int\<close> in
  \<open>GetFloat\<close> and \<open>GetDigitsAfterPoint\<close>: they are of type \<open>int\<close> (32 bits, two's
  complement), words that \<open>sint\<close> reads and the signed order \<open><s\<close> compares. Adding the
  \<open>unsigned int\<close> exponent to them is done in unsigned arithmetic and converted back,
  which is addition of words. \<open>++\<close> and \<open>--\<close> on them are addition and subtraction of
  words too; they leave the range of \<open>int\<close> only after more than \<open>2^31\<close> characters.
\<close>

record NumericConverter =
  lvalue :: "32 word"
  fives :: "32 word"
  twos :: "32 word"
  hadDecimalPoint :: bool
  hadExponent :: bool
  isNegative :: bool

definition UINT32_MAX :: "32 word" where
  "UINT32_MAX = 0xFFFFFFFF"

text \<open>The assignments at the head of \<open>Accumulate\<close>: every field is overwritten.\<close>

definition reset :: NumericConverter where
  "reset = \<lparr> lvalue = 0, fives = 0, twos = 0,
             hadDecimalPoint = False, hadExponent = False, isNegative = False \<rparr>"

subsection \<open>Steps 1 and 2: white space and sign\<close>

fun skip_white :: "string \<Rightarrow> string" where
  "skip_white [] = []"
| "skip_white (c # cs) =
     (if c = CHR '' '' \<or> c = CHR 0x09 then skip_white cs else c # cs)"

text \<open>\<open>None\<close> is the \<open>return false\<close> on a minus sign that is not accepted.\<close>

definition check_sign :: "bool \<Rightarrow> NumericConverter \<Rightarrow> string \<Rightarrow> (NumericConverter \<times> string) option" where
  "check_sign acceptNegative st s =
     (if cur s = CHR ''+'' then Some (st, NextChar s)
      else if cur s = CHR ''-'' then
        (if \<not> acceptNegative then None
         else Some (st\<lparr>isNegative := True\<rparr>, NextChar s))
      else Some (st, s))"

subsection \<open>Leading zeros\<close>

definition dec_both :: "NumericConverter \<Rightarrow> NumericConverter" where
  "dec_both st = st\<lparr>fives := fives st - 1, twos := twos st - 1\<rparr>"

definition inc_both :: "NumericConverter \<Rightarrow> NumericConverter" where
  "inc_both st = st\<lparr>fives := fives st + 1, twos := twos st + 1\<rparr>"

text \<open>
  One pass through the body of the first \<open>for (;;)\<close> loop, on the object, the local
  \<open>hadDigit\<close> and the input; \<open>None\<close> is the \<open>break\<close>.
\<close>

definition zeros_iter ::
  "bool \<Rightarrow> NumericConverter \<times> bool \<times> string \<Rightarrow> (NumericConverter \<times> bool \<times> string) option" where
  "zeros_iter acceptReals = (\<lambda>(st, hadDigit, s).
     if cur s = CHR ''0'' then
       Some (if hadDecimalPoint st then dec_both st else st, True, NextChar s)
     else if cur s = CHR ''.'' \<and> \<not> hadDecimalPoint st \<and> acceptReals then
       Some (st\<lparr>hadDecimalPoint := True\<rparr>, hadDigit, NextChar s)
     else None)"

lemma zeros_iter_shorter:
  "zeros_iter acceptReals (st, h, s) = Some (st', h', s') \<Longrightarrow> length s' < length s"
  by (cases s) (auto simp: zeros_iter_def cur_def NextChar_def split: if_splits)

function zeros_loop ::
  "bool \<Rightarrow> NumericConverter \<times> bool \<times> string \<Rightarrow> NumericConverter \<times> bool \<times> string" where
  "zeros_loop acceptReals cfg =
     (case zeros_iter acceptReals cfg of
        None \<Rightarrow> cfg
      | Some cfg' \<Rightarrow> zeros_loop acceptReals cfg')"
  by pat_completeness auto
termination
  by (relation "measure (\<lambda>(a, st, h, s). length s)") (auto dest: zeros_iter_shorter)

declare zeros_loop.simps [simp del]

subsection \<open>Significant digits\<close>

text \<open>The three guards of the digit branch, as the source writes them (unsigned
  32-bit subtraction and division).\<close>

definition fits10 :: "32 word \<Rightarrow> 32 word \<Rightarrow> bool" where
  "fits10 lv digit \<longleftrightarrow>
     lv \<le> (UINT32_MAX - 9) div 10 \<or> lv \<le> (UINT32_MAX - digit) div 10"

definition fits5 :: "32 word \<Rightarrow> 32 word \<Rightarrow> bool" where
  "fits5 lv fivesDigit \<longleftrightarrow> lv \<le> (UINT32_MAX - fivesDigit) div 5"

definition fits2 :: "32 word \<Rightarrow> 32 word \<Rightarrow> bool" where
  "fits2 lv twosDigit \<longleftrightarrow> lv \<le> (UINT32_MAX - twosDigit) div 2"

text \<open>The body of \<open>if (isdigit(c))\<close> in the second loop, after \<open>hadDigit = true\<close>: it
  updates the object and the local \<open>overflowed\<close>.\<close>

definition add_digit :: "NumericConverter \<Rightarrow> bool \<Rightarrow> 32 word \<Rightarrow> NumericConverter \<times> bool" where
  "add_digit st overflowed digit =
     (if overflowed then
        (if \<not> hadDecimalPoint st then inc_both st else st, overflowed)
      else if fits10 (lvalue st) digit then
        (let st' = st\<lparr>lvalue := lvalue st * 10 + digit\<rparr>
         in (if hadDecimalPoint st' then dec_both st' else st', overflowed))
      else
        (let fivesDigit = (digit + 1) div 2 in
         if fits5 (lvalue st) fivesDigit then
           (let st' = st\<lparr>lvalue := lvalue st * 5 + fivesDigit\<rparr>
            in (if hadDecimalPoint st' then st'\<lparr>fives := fives st' - 1\<rparr>
                else st'\<lparr>twos := twos st' + 1\<rparr>, True))
         else
           (let twosDigit = (digit + 4) div 5 in
            if fits2 (lvalue st) twosDigit then
              (let st' = st\<lparr>lvalue := lvalue st * 2 + twosDigit\<rparr>
               in (if hadDecimalPoint st' then st'\<lparr>twos := twos st' - 1\<rparr>
                   else st'\<lparr>fives := fives st' + 1\<rparr>, True))
            else if \<not> hadDecimalPoint st then (inc_both st, True)
            else (st, True))))"

definition digits_iter ::
  "bool \<Rightarrow> NumericConverter \<times> bool \<times> bool \<times> string
     \<Rightarrow> (NumericConverter \<times> bool \<times> bool \<times> string) option" where
  "digits_iter acceptReals = (\<lambda>(st, hadDigit, overflowed, s).
     if isdigit (cur s) then
       (let (st', overflowed') = add_digit st overflowed (digit_of (cur s))
        in Some (st', True, overflowed', NextChar s))
     else if cur s = CHR ''.'' \<and> \<not> hadDecimalPoint st \<and> acceptReals then
       Some (st\<lparr>hadDecimalPoint := True\<rparr>, hadDigit, overflowed, NextChar s)
     else None)"

lemma digits_iter_shorter:
  "digits_iter acceptReals (st, h, ov, s) = Some (st', h', ov', s') \<Longrightarrow> length s' < length s"
  by (cases s)
     (auto simp: digits_iter_def cur_def NextChar_def isdigit_def split: if_splits prod.splits)

function digits_loop ::
  "bool \<Rightarrow> NumericConverter \<times> bool \<times> bool \<times> string
     \<Rightarrow> NumericConverter \<times> bool \<times> bool \<times> string" where
  "digits_loop acceptReals cfg =
     (case digits_iter acceptReals cfg of
        None \<Rightarrow> cfg
      | Some cfg' \<Rightarrow> digits_loop acceptReals cfg')"
  by pat_completeness auto
termination
  by (relation "measure (\<lambda>(a, st, h, ov, s). length s)") (auto dest: digits_iter_shorter)

declare digits_loop.simps [simp del]

subsection \<open>Exponent\<close>

text \<open>\<open>while (isdigit(c)) exponent = (10u * exponent) + (c - '0')\<close>, in
  \<open>unsigned int\<close> arithmetic, which wraps.\<close>

fun exp_digits :: "32 word \<Rightarrow> string \<Rightarrow> 32 word \<times> string" where
  "exp_digits exponent [] = (exponent, [])"
| "exp_digits exponent (c # cs) =
     (if isdigit c then exp_digits (10 * exponent + digit_of c) cs
      else (exponent, c # cs))"

definition apply_exponent :: "bool \<Rightarrow> 32 word \<Rightarrow> NumericConverter \<Rightarrow> NumericConverter" where
  "apply_exponent expNegative exponent st =
     (if expNegative
      then st\<lparr>twos := twos st - exponent, fives := fives st - exponent\<rparr>
      else st\<lparr>twos := twos st + exponent, fives := fives st + exponent\<rparr>)"

text \<open>The body of \<open>if (acceptReals && toupper(c) == 'E')\<close>, with its result.\<close>

definition read_exponent :: "NumericConverter \<Rightarrow> string \<Rightarrow> bool \<times> NumericConverter \<times> string" where
  "read_exponent st s =
     (let s1 = NextChar s;
          expNegative = (cur s1 = CHR ''-'');
          s2 = (if expNegative \<or> cur s1 = CHR ''+'' then NextChar s1 else s1)
      in if \<not> isdigit (cur s2) then (False, st, s2)
         else
           (let (exponent, s3) = exp_digits 0 s2
            in (True, apply_exponent expNegative exponent (st\<lparr>hadExponent := True\<rparr>), s3)))"

subsection \<open>Accumulate\<close>

text \<open>
  \<open>Accumulate s acceptNegative acceptReals\<close> returns the boolean result, the object as
  the call leaves it, and the input that is left (starting with the character that
  ended the literal).
\<close>

definition Accumulate :: "string \<Rightarrow> bool \<Rightarrow> bool \<Rightarrow> bool \<times> NumericConverter \<times> string" where
  "Accumulate s acceptNegative acceptReals =
     (let s1 = skip_white s in
      case check_sign acceptNegative reset s1 of
        None \<Rightarrow> (False, reset, s1)
      | Some (st2, s2) \<Rightarrow>
          (let (st3, hadDigit3, s3) = zeros_loop acceptReals (st2, False, s2);
               (st4, hadDigit, overflowed, s4) =
                  digits_loop acceptReals (st3, hadDigit3, False, s3)
           in if \<not> hadDigit then (False, st4, s4)
              else if acceptReals \<and> toupper (cur s4) = CHR ''E'' then read_exponent st4 s4
              else (True, st4, s4)))"

text \<open>
  The object, \<open>hadDigit\<close>, \<open>overflowed\<close> and the input at the end of the second loop of
  \<open>Accumulate\<close>; \<open>None\<close> when the sign is refused.
\<close>

definition digit_loop_exit ::
  "string \<Rightarrow> bool \<Rightarrow> bool \<Rightarrow> (NumericConverter \<times> bool \<times> bool \<times> string) option" where
  "digit_loop_exit s acceptNegative acceptReals =
     (case check_sign acceptNegative reset (skip_white s) of
        None \<Rightarrow> None
      | Some (st2, s2) \<Rightarrow>
          (let (st3, hadDigit3, s3) = zeros_loop acceptReals (st2, False, s2)
           in Some (digits_loop acceptReals (st3, hadDigit3, False, s3))))"

text \<open>
  A character that none of the steps before the exponent consumes: not a blank, a sign
  or a digit, and not a decimal point when reals are accepted.
\<close>

definition ends_mantissa :: "bool \<Rightarrow> char \<Rightarrow> bool" where
  "ends_mantissa aR c \<longleftrightarrow>
     c \<noteq> CHR '' '' \<and> c \<noteq> CHR 0x09 \<and> c \<noteq> CHR ''+'' \<and> c \<noteq> CHR ''-'' \<and> \<not> isdigit c
     \<and> (c = CHR ''.'' \<longrightarrow> \<not> aR)"

subsection \<open>The points of a run\<close>

text \<open>
  \<open>Accumulate_point s acceptNegative acceptReals st\<close>: on the input \<open>s\<close>, the object is
  in state \<open>st\<close> at some point of the call: after the reset, after the sign, at the
  head of either loop after any number of passes, when an exponent has been found and
  is not yet applied, or when the call returns.
\<close>

inductive Accumulate_point :: "string \<Rightarrow> bool \<Rightarrow> bool \<Rightarrow> NumericConverter \<Rightarrow> bool"
  for s :: string and acceptNegative :: bool and acceptReals :: bool where
  at_reset: "Accumulate_point s acceptNegative acceptReals reset"
| at_sign:
    "check_sign acceptNegative reset (skip_white s) = Some (st, s2)
     \<Longrightarrow> Accumulate_point s acceptNegative acceptReals st"
| in_zeros:
    "check_sign acceptNegative reset (skip_white s) = Some (st2, s2)
     \<Longrightarrow> (\<lambda>a b. zeros_iter acceptReals a = Some b)\<^sup>*\<^sup>* (st2, False, s2) (st, h, s')
     \<Longrightarrow> Accumulate_point s acceptNegative acceptReals st"
| in_digits:
    "check_sign acceptNegative reset (skip_white s) = Some (st2, s2)
     \<Longrightarrow> zeros_loop acceptReals (st2, False, s2) = (st3, h3, s3)
     \<Longrightarrow> (\<lambda>a b. digits_iter acceptReals a = Some b)\<^sup>*\<^sup>* (st3, h3, False, s3) (st, h, ov, s')
     \<Longrightarrow> Accumulate_point s acceptNegative acceptReals st"
| at_exponent:
    "check_sign acceptNegative reset (skip_white s) = Some (st2, s2)
     \<Longrightarrow> zeros_loop acceptReals (st2, False, s2) = (st3, h3, s3)
     \<Longrightarrow> digits_loop acceptReals (st3, h3, False, s3) = (st4, True, ov, s4)
     \<Longrightarrow> acceptReals \<Longrightarrow> toupper (cur s4) = CHR ''E''
     \<Longrightarrow> fst (read_exponent st4 s4)
     \<Longrightarrow> Accumulate_point s acceptNegative acceptReals (st4\<lparr>hadExponent := True\<rparr>)"
| at_return:
    "Accumulate s acceptNegative acceptReals = (ok, st, s')
     \<Longrightarrow> Accumulate_point s acceptNegative acceptReals st"

text \<open>
  The two exponents differ by at most one: as signed integers (\<open>exponents_close\<close>),
  and in 32-bit arithmetic, where the difference is taken modulo \<open>2^32\<close>
  (\<open>exponents_close_mod\<close>). \<open>digits_inv\<close> is the form the second holds in along the
  digit loop: the exponents are equal until a digit has overflowed.
\<close>

definition exponents_close :: "NumericConverter \<Rightarrow> bool" where
  "exponents_close st \<longleftrightarrow> \<bar>sint (twos st) - sint (fives st)\<bar> \<le> 1"

definition exponents_close_mod :: "NumericConverter \<Rightarrow> bool" where
  "exponents_close_mod st \<longleftrightarrow>
     twos st - fives st = 0 \<or> twos st - fives st = 1 \<or> twos st - fives st = - 1"

definition digits_inv :: "NumericConverter \<times> bool \<times> bool \<times> string \<Rightarrow> bool" where
  "digits_inv = (\<lambda>(st, h, ov, s).
     if ov then exponents_close_mod st else twos st = fives st)"

subsection \<open>Reading the result\<close>

definition FitsInUint32 :: "NumericConverter \<Rightarrow> bool" where
  "FitsInUint32 st \<longleftrightarrow>
     \<not> hadDecimalPoint st \<and> \<not> hadExponent st \<and> (\<not> isNegative st \<or> lvalue st = 0)
     \<and> twos st = 0 \<and> fives st = 0 \<and> lvalue st \<le> UINT32_MAX"

definition GetUint32 :: "NumericConverter \<Rightarrow> 32 word" where
  "GetUint32 st = lvalue st"

text \<open>\<open>digits\<close> is an \<open>int\<close>; the result is \<open>(unsigned int)-digits\<close>.\<close>

definition GetDigitsAfterPoint :: "NumericConverter \<Rightarrow> 32 word" where
  "GetDigitsAfterPoint st =
     (let digits = (if fives st <s twos st then fives st else twos st)
      in if digits <s 0 then - digits else 0)"

section \<open>Floating point\<close>

text \<open>
  The sources compute with \<open>double\<close> and \<open>float\<close>. Their operations are a parameter of
  the model: a type \<open>'d\<close> of doubles, a type \<open>'f\<close> of floats, and
  \<^item> \<open>d_of x\<close>, the double that a conversion from an integer or a decimal constant
    of exact value \<open>x\<close> gives;
  \<^item> \<open>d_add\<close>, \<open>d_mul\<close>, \<open>d_neg\<close> and \<open>d_is_zero\<close> (comparison with \<open>0.0\<close>);
  \<^item> \<open>d_pow\<close>, the library's \<open>pow\<close> at an integer exponent;
  \<^item> \<open>d_TimesPowerOf10\<close>, the function \<open>TimesPowerOf10\<close> of \<open>Math/Power.h\<close>, which is
    not among the sources;
  \<^item> \<open>f_of_d\<close>, the cast to \<open>float\<close>, and \<open>f_neg\<close>.
  What is proved for every such record holds for IEEE arithmetic in particular.
\<close>

record ('d, 'f) arith =
  d_of :: "real \<Rightarrow> 'd"
  d_add :: "'d \<Rightarrow> 'd \<Rightarrow> 'd"
  d_mul :: "'d \<Rightarrow> 'd \<Rightarrow> 'd"
  d_neg :: "'d \<Rightarrow> 'd"
  d_is_zero :: "'d \<Rightarrow> bool"
  d_pow :: "'d \<Rightarrow> int \<Rightarrow> 'd"
  d_TimesPowerOf10 :: "'d \<Rightarrow> int \<Rightarrow> 'd"
  f_of_d :: "'d \<Rightarrow> 'f"
  f_neg :: "'f \<Rightarrow> 'f"

text \<open>
  Modelled from the spec: \<open>TimesPowerOf10\<close> of \<open>Math/Power.h\<close> is not among the sources.
  The specification has the two digit groups combined "via exact multiplication by
  powers of ten", as \<open>(postPoint / 10^digitsAfterPoint + prePoint) * 10^exponent\<close>:
  \<open>TimesPowerOf10 x n\<close> is \<open>x * 10^n\<close>.
\<close>

definition TimesPowerOf10_exact :: "real \<Rightarrow> int \<Rightarrow> real" where
  "TimesPowerOf10_exact x n = x * 10 powi n"

text \<open>Arithmetic without rounding, on the reals: the value a computation aims at.\<close>

definition exact :: "(real, real) arith" where
  "exact = \<lparr> d_of = (\<lambda>x. x), d_add = (+), d_mul = (*), d_neg = uminus,
             d_is_zero = (\<lambda>x. x = 0), d_pow = (\<lambda>x n. x powi n),
             d_TimesPowerOf10 = TimesPowerOf10_exact,
             f_of_d = (\<lambda>x. x), f_neg = uminus \<rparr>"

text \<open>
  IEEE 754 arithmetic with rounding to nearest, ties to even: \<open>binary_round p emin\<close>
  rounds a real to \<open>p\<close> significant bits, with the exponent of the leading bit not
  below \<open>emin\<close> (subnormal numbers have the spacing of the smallest normal ones).
  \<open>binary64\<close> is \<open>double\<close>, \<open>binary32\<close> is \<open>float\<close>. Overflow to infinity is not
  part of it: the values here are far from the largest finite number.
\<close>

definition round_half_even :: "real \<Rightarrow> int" where
  "round_half_even x =
     (let n = \<lfloor>x\<rfloor>; r = x - of_int n
      in if r < 1 / 2 then n else if 1 / 2 < r then n + 1 else if even n then n else n + 1)"

definition binary_round :: "nat \<Rightarrow> int \<Rightarrow> real \<Rightarrow> real" where
  "binary_round p emin x =
     (if x = 0 then 0
      else (let e = max \<lfloor>log 2 \<bar>x\<bar>\<rfloor> emin; ulp = 2 powi (e - int p + 1)
            in of_int (round_half_even (x / ulp)) * ulp))"

definition binary64 :: "real \<Rightarrow> real" where
  "binary64 = binary_round 53 (- 1022)"

definition binary32 :: "real \<Rightarrow> real" where
  "binary32 = binary_round 24 (- 126)"

text \<open>
  The arithmetic of the target: conversions and constants round to \<open>double\<close>, sums and
  products are the rounded exact results, the cast rounds to \<open>float\<close>. The library's
  \<open>pow\<close> and \<open>TimesPowerOf10\<close> are not among the sources and stay parameters.
\<close>

definition ieee :: "(real \<Rightarrow> int \<Rightarrow> real) \<Rightarrow> (real \<Rightarrow> int \<Rightarrow> real) \<Rightarrow> (real, real) arith" where
  "ieee pow TimesPowerOf10 =
     \<lparr> d_of = binary64,
       d_add = (\<lambda>a b. binary64 (a + b)),
       d_mul = (\<lambda>a b. binary64 (a * b)),
       d_neg = uminus,
       d_is_zero = (\<lambda>x. x = 0),
       d_pow = pow,
       d_TimesPowerOf10 = TimesPowerOf10,
       f_of_d = binary32,
       f_neg = uminus \<rparr>"

subsection \<open>GetFloat\<close>

definition inversePowersOfTen :: "('d, 'f) arith \<Rightarrow> 'd list" where
  "inversePowersOfTen ops = map (d_of ops)
     [0.1, 0.01, 0.001, 0.0001, 0.00001, 0.000001, 0.0000001, 0.00000001,
      0.000000001, 0.0000000001, 0.00000000001, 0.000000000001]"

definition GetFloat :: "('d, 'f) arith \<Rightarrow> NumericConverter \<Rightarrow> 'f" where
  "GetFloat ops st =
     (let dvalue = d_of ops (real (unat (lvalue st)));
          tens = (if twos st <s fives st then twos st else fives st);
          dvalue =
            (if tens \<noteq> 0 then
               (if tens <s 0 \<and> - of_nat (length (inversePowersOfTen ops)) \<le>s tens
                then d_mul ops dvalue (inversePowersOfTen ops ! unat (- tens - 1))
                else d_mul ops dvalue (d_pow ops (d_of ops 10.0) (sint tens)))
             else dvalue);
          dvalue =
            (if twos st <s fives st then d_mul ops dvalue (d_of ops 5)
             else if fives st <s twos st then d_mul ops dvalue (d_of ops 2)
             else dvalue)
      in if isNegative st then f_neg ops (f_of_d ops dvalue) else f_of_d ops dvalue)"

text \<open>
  The same function in the words of the specification: \<open>tens\<close> is the minimum of the
  two exponents; a value of \<open>tens\<close> from \<open>-12\<close> to \<open>-1\<close> multiplies by the table's entry
  for \<open>10^tens\<close>, any other nonzero value by \<open>pow(10, tens)\<close>; then one factor \<open>5\<close> or
  \<open>2\<close> for the larger exponent; the sign last, on the \<open>float\<close>.
\<close>

definition GetFloat_spec :: "('d, 'f) arith \<Rightarrow> NumericConverter \<Rightarrow> 'f" where
  "GetFloat_spec ops st =
     (let twosExponent = sint (twos st);
          fivesExponent = sint (fives st);
          tens = min twosExponent fivesExponent;
          mantissa = d_of ops (real (unat (lvalue st)));
          scaled =
            (if - 12 \<le> tens \<and> tens \<le> - 1 then d_mul ops mantissa (d_of ops (10 powi tens))
             else if tens \<noteq> 0 then d_mul ops mantissa (d_pow ops (d_of ops 10) tens)
             else mantissa);
          final =
            (if fivesExponent > twosExponent then d_mul ops scaled (d_of ops 5)
             else if twosExponent > fivesExponent then d_mul ops scaled (d_of ops 2)
             else scaled);
          result = f_of_d ops final
      in if isNegative st then f_neg ops result else result)"

section \<open>SafeStrtod and SafeStrtoul\<close>

text \<open>
  A pointer into a C string is modelled by the string from that position on; the value
  stored through the end pointer (\<open>*p = s\<close>, \<open>*endptr = s\<close>) is the second component
  of the result, which a caller passing \<open>nullptr\<close> ignores. \<open>long\<close> and
  \<open>unsigned long\<close> have 32 bits, as on the targets of the library.
\<close>

definition ULONG_MAX :: "32 word" where
  "ULONG_MAX = - 1"

text \<open>Step 1: the sign.\<close>

definition skip_sign :: "string \<Rightarrow> bool \<times> string" where
  "skip_sign s =
     (let negative = (cur s = CHR ''-'')
      in (negative, if negative \<or> cur s = CHR ''+'' then NextChar s else s))"

text \<open>Step 2: the digits before the point, in \<open>double\<close>.\<close>

fun before_point :: "('d, 'f) arith \<Rightarrow> 'd \<Rightarrow> string \<Rightarrow> 'd \<times> string" where
  "before_point ops valueBeforePoint [] = (valueBeforePoint, [])"
| "before_point ops valueBeforePoint (c # cs) =
     (if isdigit c
      then before_point ops
             (d_add ops (d_mul ops valueBeforePoint (d_of ops 10))
                        (d_of ops (real (unat (digit_of c))))) cs
      else (valueBeforePoint, c # cs))"

text \<open>Step 3b: the digits after the point, on \<open>valueAfterPoint\<close>, \<open>digitsAfterPoint\<close>
  and \<open>overflowed\<close>.\<close>

fun after_point ::
  "32 word \<times> 32 word \<times> bool \<Rightarrow> string \<Rightarrow> (32 word \<times> 32 word \<times> bool) \<times> string" where
  "after_point acc [] = (acc, [])"
| "after_point (valueAfterPoint, digitsAfterPoint, overflowed) (c # cs) =
     (if isdigit c then
        (if \<not> overflowed then
           (let digit = digit_of c in
            if valueAfterPoint \<le> (ULONG_MAX - digit) div 10
            then after_point (valueAfterPoint * 10 + digit, digitsAfterPoint + 1, overflowed) cs
            else after_point
                   (if 5 \<le> digit \<and> valueAfterPoint \<noteq> ULONG_MAX
                    then valueAfterPoint + 1 else valueAfterPoint,
                    digitsAfterPoint, True) cs)
         else after_point (valueAfterPoint, digitsAfterPoint, overflowed) cs)
      else ((valueAfterPoint, digitsAfterPoint, overflowed), c # cs))"

text \<open>Step 5b: the exponent's digits, in \<open>long\<close>.\<close>

fun strtod_exp_digits :: "32 word \<Rightarrow> string \<Rightarrow> 32 word \<times> string" where
  "strtod_exp_digits exponent [] = (exponent, [])"
| "strtod_exp_digits exponent (c # cs) =
     (if isdigit c then strtod_exp_digits (10 * exponent + digit_of c) cs
      else (exponent, c # cs))"

definition strtod_exponent :: "string \<Rightarrow> 32 word \<times> string" where
  "strtod_exponent s =
     (if toupper (cur s) = CHR ''E'' then
        (let s1 = NextChar s;
             expNegative = (cur s1 = CHR ''-'');
             s2 = (if expNegative \<or> cur s1 = CHR ''+'' then NextChar s1 else s1);
             (exponent, s3) = strtod_exp_digits 0 s2
         in (if expNegative then - exponent else exponent, s3))
      else (0, s))"

definition SafeStrtod :: "('d, 'f) arith \<Rightarrow> string \<Rightarrow> 'd \<times> string" where
  "SafeStrtod ops s =
     (let (negative, s1) = skip_sign (skip_white s);
          (valueBeforePoint, s2) = before_point ops (d_of ops 0.0) s1;
          ((valueAfterPoint, digitsAfterPoint, overflowed), s3) =
             (if cur s2 = CHR ''.'' then after_point (0, 0, False) (NextChar s2)
              else ((0, 0, False), s2));
          (exponent, s4) = strtod_exponent s3;
          retvalue =
            (if valueAfterPoint \<noteq> 0 then
               (if d_is_zero ops valueBeforePoint
                then d_TimesPowerOf10 ops (d_of ops (real (unat valueAfterPoint)))
                       (sint (exponent - digitsAfterPoint))
                else d_TimesPowerOf10 ops
                       (d_add ops
                          (d_TimesPowerOf10 ops (d_of ops (real (unat valueAfterPoint)))
                             (sint (- digitsAfterPoint)))
                          valueBeforePoint)
                       (sint exponent))
             else d_TimesPowerOf10 ops valueBeforePoint (sint exponent))
      in (if negative then d_neg ops retvalue else retvalue, s4))"

text \<open>
  Both overloads of \<open>SafeStrtoul\<close> have the same body. \<open>strtoul\<close> is the C library's
  function, a parameter here: from the string and the base it gives the value and the
  end pointer.
\<close>

definition SafeStrtoul ::
  "(string \<Rightarrow> int \<Rightarrow> 32 word \<times> string) \<Rightarrow> string \<Rightarrow> int \<Rightarrow> 32 word \<times> string" where
  "SafeStrtoul strtoul s base =
     (let s' = skip_white s
      in if cur s' = CHR ''-'' then (0, s') else strtoul s' base)"

text \<open>
  The length that an end pointer reports: the number of characters from the start of
  the string to the end pointer, \<open>endptr - s\<close>.
\<close>

definition consumed :: "string \<Rightarrow> string \<Rightarrow> nat" where
  "consumed s endp = length s - length endp"

text \<open>A \<open>strtoul\<close> to run \<open>SafeStrtoul\<close> with: it converts nothing.\<close>

definition strtoul_none :: "string \<Rightarrow> int \<Rightarrow> 32 word \<times> string" where
  "strtoul_none s base = (0, s)"

section \<open>The mantissa without wrap-around\<close>

text \<open>
  The accumulation of one digit \<open>d\<close> into the mantissa \<open>m\<close> in unbounded arithmetic:
  the first of \<open>m * 10 + d\<close>, \<open>m * 5 + (d + 1) / 2\<close> and \<open>m * 2 + (d + 4) / 5\<close> that
  is at most \<open>2^32 - 1\<close>, and \<open>m\<close> itself when none is or when an earlier digit has
  overflowed. This is the reference that \<open>lvalue\<close> is compared with.
\<close>

definition mantissa_unwrapped :: "nat \<Rightarrow> bool \<Rightarrow> nat \<Rightarrow> nat" where
  "mantissa_unwrapped m overflowed d =
     (if overflowed then m
      else if m * 10 + d \<le> 2 ^ 32 - 1 then m * 10 + d
      else if m * 5 + (d + 1) div 2 \<le> 2 ^ 32 - 1 then m * 5 + (d + 1) div 2
      else if m * 2 + (d + 4) div 5 \<le> 2 ^ 32 - 1 then m * 2 + (d + 4) div 5
      else m)"

section \<open>Facts about characters and the guards\<close>

lemma toupper_E_iff: "toupper c = CHR ''E'' \<longleftrightarrow> c = CHR ''E'' \<or> c = CHR ''e''"
proof -
  have e: "c = CHR ''e'' \<longleftrightarrow> (of_char c :: nat) = 101"
    using of_char_eq_iff [of c "CHR ''e''", where 'a=nat] by simp
  have E: "c = CHR ''E'' \<longleftrightarrow> (of_char c :: nat) = 69"
    using of_char_eq_iff [of c "CHR ''E''", where 'a=nat] by simp
  have "toupper c = CHR ''E'' \<longleftrightarrow> (of_char (toupper c) :: nat) = 69"
    using of_char_eq_iff [of "toupper c" "CHR ''E''", where 'a=nat] by simp
  also have "\<dots> \<longleftrightarrow> (of_char c :: nat) = 69 \<or> (of_char c :: nat) = 101"
    by (auto simp: toupper_def)
  finally show ?thesis by (simp add: e E)
qed

lemma unat_digit_of: "isdigit c \<Longrightarrow> unat (digit_of c) = of_char c - 48"
proof -
  assume "isdigit c"
  then have b: "48 \<le> (of_char c :: nat)" "(of_char c :: nat) \<le> 57" by (auto simp: isdigit_def)
  have n: "unat (of_nat (of_char c) :: 32 word) = of_char c"
    using b by (simp only: unat_of_nat) simp
  have "(48 :: 32 word) \<le> of_nat (of_char c)"
    using b by (simp only: word_le_nat_alt n) simp
  then show ?thesis
    unfolding digit_of_def by (simp only: unat_sub n) simp
qed

lemma isdigit_digit_of: "isdigit c \<Longrightarrow> digit_of c \<le> 9"
proof -
  assume d: "isdigit c"
  then have "(of_char c :: nat) \<le> 57" by (simp add: isdigit_def)
  then have "(of_char c :: nat) - 48 \<le> 9" by arith
  then show ?thesis using unat_digit_of [OF d] by (simp add: word_le_nat_alt)
qed

lemma isdigit_not_special:
  "isdigit c \<Longrightarrow> c \<noteq> CHR '' '' \<and> c \<noteq> CHR 0x09 \<and> c \<noteq> CHR ''-'' \<and> c \<noteq> CHR ''+'' \<and> c \<noteq> CHR ''.''"
  by (auto simp: isdigit_def)

lemma unat_max_minus: "unat (UINT32_MAX - x) = 4294967295 - unat x"
proof -
  have "x \<le> UINT32_MAX"
    unfolding UINT32_MAX_def
    by (simp add: word_le_nat_alt) (use unsigned_less [of x, where 'a=nat] in simp)
  then show ?thesis by (simp add: unat_sub UINT32_MAX_def)
qed

lemma fits5_iff: "fits5 lv f \<longleftrightarrow> unat lv * 5 + unat f < 2 ^ 32"
proof -
  have "unat f < 2 ^ 32" using unsigned_less [of f, where 'a=nat] by simp
  then show ?thesis
    unfolding fits5_def word_le_nat_alt unat_div unat_max_minus by simp arith
qed

lemma fits2_iff: "fits2 lv t \<longleftrightarrow> unat lv * 2 + unat t < 2 ^ 32"
proof -
  have "unat t < 2 ^ 32" using unsigned_less [of t, where 'a=nat] by simp
  then show ?thesis
    unfolding fits2_def word_le_nat_alt unat_div unat_max_minus by simp arith
qed

lemma fits10_iff: "digit \<le> 9 \<Longrightarrow> fits10 lv digit \<longleftrightarrow> unat lv * 10 + unat digit < 2 ^ 32"
proof -
  assume "digit \<le> 9"
  then have "unat digit \<le> 9" by (simp add: word_le_nat_alt)
  then show ?thesis
    unfolding fits10_def word_le_nat_alt unat_div unat_max_minus by simp arith
qed

lemma unat_fivesDigit:
  "digit \<le> 9 \<Longrightarrow> unat ((digit + 1) div 2 :: 32 word) = (unat digit + 1) div 2"
  apply (simp add: unat_div word_le_nat_alt)
  apply (subst unat_add_lem [THEN iffD1])
   apply simp_all
  done

lemma unat_twosDigit:
  "digit \<le> 9 \<Longrightarrow> unat ((digit + 4) div 5 :: 32 word) = (unat digit + 4) div 5"
  apply (simp add: unat_div word_le_nat_alt)
  apply (subst unat_add_lem [THEN iffD1])
   apply simp_all
  done

subsection \<open>Signed reading of 32-bit words\<close>

lemma mod_wrap_int:
  fixes k m :: int
  shows "0 \<le> k \<Longrightarrow> k < m \<Longrightarrow> k mod m = k"
    and "m \<le> k \<Longrightarrow> k < 2 * m \<Longrightarrow> k mod m = k - m"
    and "- m \<le> k \<Longrightarrow> k < 0 \<Longrightarrow> k mod m = k + m"
proof -
  show "0 \<le> k \<Longrightarrow> k < m \<Longrightarrow> k mod m = k" by simp
  show "k mod m = k - m" if "m \<le> k" "k < 2 * m"
  proof -
    have "(k - m) mod m = k - m" using that by (intro mod_pos_pos_trivial) auto
    then show ?thesis by simp
  qed
  show "k mod m = k + m" if "- m \<le> k" "k < 0"
  proof -
    have "(k + m) mod m = k + m" using that by (intro mod_pos_pos_trivial) auto
    then show ?thesis by simp
  qed
qed

lemma sint32: "sint (w::32 word) = (if uint w < 2147483648 then uint w else uint w - 4294967296)"
proof -
  have b: "0 \<le> uint w" "uint w < 4294967296"
    using uint_lt2p [of w] by simp_all
  have s: "sint w = (uint w + 2147483648) mod 4294967296 - 2147483648"
    by (simp add: sint_uint signed_take_bit_eq_take_bit_shift take_bit_eq_mod)
  show ?thesis
  proof (cases "uint w < 2147483648")
    case True
    then have "(uint w + 2147483648) mod 4294967296 = uint w + 2147483648"
      using b by (intro mod_wrap_int(1)) auto
    then show ?thesis using True s by simp
  next
    case False
    then have "(uint w + 2147483648) mod 4294967296 = uint w + 2147483648 - 4294967296"
      using b by (intro mod_wrap_int(2)) auto
    then show ?thesis using False s by simp
  qed
qed

lemma uint_neg32: "uint (- w :: 32 word) = (if uint w = 0 then 0 else 4294967296 - uint w)"
proof -
  have b: "0 \<le> uint w" "uint w < 4294967296"
    using uint_lt2p [of w] by simp_all
  have s: "uint (- w) = (- uint w) mod 4294967296"
    by (simp add: uint_word_ariths)
  show ?thesis
  proof (cases "uint w = 0")
    case True
    then show ?thesis using s by simp
  next
    case False
    have "0 \<le> uint w" by simp
    with False have "0 < uint w" by linarith
    then have "(- uint w) mod 4294967296 = - uint w + 4294967296"
      using b by (intro mod_wrap_int(3)) linarith+
    then show ?thesis using False s by simp
  qed
qed

lemma unat_neg_of_neg: "w <s 0 \<Longrightarrow> int (unat (- w :: 32 word)) = - sint w"
  by (simp add: word_sless_alt sint32 uint_neg32 split: if_splits)

section \<open>Running the parser on a literal\<close>

lemmas run_simps =
  Accumulate_def check_sign_def cur_def NextChar_def zeros_loop.simps zeros_iter_def
  digits_loop.simps digits_iter_def isdigit_def digit_of_def add_digit_def fits10_def
  fits5_def fits2_def UINT32_MAX_def read_exponent_def apply_exponent_def reset_def
  dec_both_def inc_both_def toupper_E_iff Let_def

section \<open>The mantissa never wraps\<close>

lemma unat_update:
  fixes lv x :: "32 word"
  shows "unat lv * k + unat x < 2 ^ 32 \<Longrightarrow> unat (lv * of_nat k + x) = unat lv * k + unat x"
proof -
  assume a: "unat lv * k + unat x < 2 ^ 32"
  have "unat (lv * of_nat k + x) = (unat lv * k + unat x) mod 2 ^ 32"
    by (simp add: unat_word_ariths unat_of_nat mod_simps)
  then show ?thesis using a by simp
qed

lemma add_digit_unwrapped:
  assumes "isdigit c"
  shows "unat (lvalue (fst (add_digit st overflowed (digit_of c)))) =
         mantissa_unwrapped (unat (lvalue st)) overflowed (unat (digit_of c))"
proof -
  have d: "digit_of c \<le> 9" using assms by (rule isdigit_digit_of)
  note iffs = fits10_iff [OF d] fits5_iff fits2_iff unat_fivesDigit [OF d] unat_twosDigit [OF d]
  have le: "\<And>n::nat. n \<le> 2 ^ 32 - 1 \<longleftrightarrow> n < 2 ^ 32" by auto
  show ?thesis
    using unat_update [of "lvalue st" 10 "digit_of c"]
          unat_update [of "lvalue st" 5 "(digit_of c + 1) div 2"]
          unat_update [of "lvalue st" 2 "(digit_of c + 4) div 5"]
    by (simp add: add_digit_def mantissa_unwrapped_def iffs inc_both_def dec_both_def Let_def le)
qed

text \<open>
  C5. Each of the three update expressions is evaluated under a guard that bounds its
  unbounded value by \<open>2^32 - 1\<close>; so after every pass of the digit loop, on any
  state and any input, \<open>lvalue\<close> read as a number is the unbounded accumulation
  \<open>mantissa_unwrapped\<close> of the digit into the previous mantissa.
\<close>

theorem mantissa_never_wraps:
  "(isdigit c \<and> fits10 (lvalue st) (digit_of c) \<longrightarrow>
      unat (lvalue st) * 10 + unat (digit_of c) \<le> 2 ^ 32 - 1)
   \<and> (isdigit c \<and> fits5 (lvalue st) ((digit_of c + 1) div 2) \<longrightarrow>
      unat (lvalue st) * 5 + (unat (digit_of c) + 1) div 2 \<le> 2 ^ 32 - 1)
   \<and> (isdigit c \<and> fits2 (lvalue st) ((digit_of c + 4) div 5) \<longrightarrow>
      unat (lvalue st) * 2 + (unat (digit_of c) + 4) div 5 \<le> 2 ^ 32 - 1)
   \<and> (digits_iter acceptReals (st, hadDigit, overflowed, s) = Some (st', hadDigit', overflowed', s') \<longrightarrow>
      unat (lvalue st') =
        (if isdigit (cur s)
         then mantissa_unwrapped (unat (lvalue st)) overflowed (unat (digit_of (cur s)))
         else unat (lvalue st)))"
proof -
  have le: "\<And>n::nat. n \<le> 2 ^ 32 - 1 \<longleftrightarrow> n < 2 ^ 32" by auto
  have g: "unat (lvalue st) * 10 + unat (digit_of c) \<le> 2 ^ 32 - 1"
    if "isdigit c" "fits10 (lvalue st) (digit_of c)"
    using that fits10_iff [OF isdigit_digit_of [OF that(1)], of "lvalue st"] by (simp add: le)
  have g5: "unat (lvalue st) * 5 + (unat (digit_of c) + 1) div 2 \<le> 2 ^ 32 - 1"
    if "isdigit c" "fits5 (lvalue st) ((digit_of c + 1) div 2)"
    using that fits5_iff [of "lvalue st" "(digit_of c + 1) div 2"]
      unat_fivesDigit [OF isdigit_digit_of [OF that(1)]] by (simp add: le)
  have g2: "unat (lvalue st) * 2 + (unat (digit_of c) + 4) div 5 \<le> 2 ^ 32 - 1"
    if "isdigit c" "fits2 (lvalue st) ((digit_of c + 4) div 5)"
    using that fits2_iff [of "lvalue st" "(digit_of c + 4) div 5"]
      unat_twosDigit [OF isdigit_digit_of [OF that(1)]] by (simp add: le)
  have it: "unat (lvalue st') =
        (if isdigit (cur s)
         then mantissa_unwrapped (unat (lvalue st)) overflowed (unat (digit_of (cur s)))
         else unat (lvalue st))"
    if "digits_iter acceptReals (st, hadDigit, overflowed, s) = Some (st', hadDigit', overflowed', s')"
  proof (cases "isdigit (cur s)")
    case True
    from that True have "st' = fst (add_digit st overflowed (digit_of (cur s)))"
      by (auto simp: digits_iter_def split: prod.splits)
    then show ?thesis using True add_digit_unwrapped [OF True] by simp
  next
    case False
    from that False have "lvalue st' = lvalue st"
      by (auto simp: digits_iter_def split: if_splits)
    then show ?thesis using False by simp
  qed
  from g g5 g2 it show ?thesis by blast
qed

theorem mantissa_never_wraps_witness:
  "isdigit (CHR ''5'') \<and> fits10 429496729 (digit_of (CHR ''5''))
   \<and> unat (429496729 :: 32 word) * 10 + unat (digit_of (CHR ''5'')) \<le> 2 ^ 32 - 1
   \<and> fits5 800000000 ((digit_of (CHR ''5'') + 1) div 2)
   \<and> unat (800000000 :: 32 word) * 5 + (unat (digit_of (CHR ''5'')) + 1) div 2 \<le> 2 ^ 32 - 1
   \<and> fits2 2000000000 ((digit_of (CHR ''5'') + 4) div 5)
   \<and> unat (2000000000 :: 32 word) * 2 + (unat (digit_of (CHR ''5'')) + 4) div 5 \<le> 2 ^ 32 - 1
   \<and> digits_iter True (reset\<lparr>lvalue := 800000000\<rparr>, True, False, ''5'')
       = Some (reset\<lparr>lvalue := 4000000003, twos := 1\<rparr>, True, True, [])
   \<and> unat (lvalue (reset\<lparr>lvalue := 4000000003, twos := 1\<rparr>))
       = mantissa_unwrapped (unat (lvalue (reset\<lparr>lvalue := 800000000\<rparr>))) False
           (unat (digit_of (cur ''5'')))"
  using
    mantissa_never_wraps [of "CHR ''5''" "reset\<lparr>lvalue := 429496729\<rparr>"]
    mantissa_never_wraps [of "CHR ''5''" "reset\<lparr>lvalue := 800000000\<rparr>" True True False
      "''5''" "reset\<lparr>lvalue := 4000000003, twos := 1\<rparr>" True True "[]"]
    mantissa_never_wraps [of "CHR ''5''" "reset\<lparr>lvalue := 2000000000\<rparr>"]
  by (simp add: run_simps)

section \<open>Reading an unsigned integer\<close>

lemma sint_eq_0_iff: "sint (w :: 32 word) = 0 \<longleftrightarrow> w = 0"
  using uint_lt2p [of w] by (auto simp: sint32 uint_0_iff)

lemma unat_le_max: "unat (w :: 32 word) \<le> 2 ^ 32 - 1"
  using unsigned_less [of w, where 'a=nat] by simp

text \<open>
  C4. \<open>FitsInUint32\<close> holds exactly when no decimal point and no exponent were seen,
  the sign is not negative or the mantissa is zero, both exponents are zero and the
  mantissa is at most \<open>2^32 - 1\<close>. After parsing \<open>4294967295\<close> it holds and
  \<open>GetUint32\<close> is \<open>4294967295\<close>; after parsing \<open>4294967296\<close> it does not hold.
\<close>

theorem FitsInUint32_iff:
  "(FitsInUint32 st \<longleftrightarrow>
      \<not> hadDecimalPoint st \<and> \<not> hadExponent st
      \<and> (\<not> isNegative st \<or> unat (lvalue st) = 0)
      \<and> sint (twos st) = 0 \<and> sint (fives st) = 0
      \<and> unat (lvalue st) \<le> 2 ^ 32 - 1)
   \<and> (case Accumulate ''4294967295'' acceptNegative acceptReals of
         (ok, st', rest) \<Rightarrow> ok \<and> FitsInUint32 st' \<and> unat (GetUint32 st') = 4294967295)
   \<and> (case Accumulate ''4294967296'' acceptNegative acceptReals of
         (ok, st', rest) \<Rightarrow> ok \<and> \<not> FitsInUint32 st')"
proof -
  have m: "lvalue st \<le> UINT32_MAX"
    using unat_le_max [of "lvalue st"] by (simp add: UINT32_MAX_def word_le_nat_alt)
  have a: "FitsInUint32 st \<longleftrightarrow>
      \<not> hadDecimalPoint st \<and> \<not> hadExponent st
      \<and> (\<not> isNegative st \<or> unat (lvalue st) = 0)
      \<and> sint (twos st) = 0 \<and> sint (fives st) = 0
      \<and> unat (lvalue st) \<le> 2 ^ 32 - 1"
    unfolding FitsInUint32_def using m unat_le_max [of "lvalue st"]
    by (simp add: sint_eq_0_iff unat_eq_0)
  have b: "case Accumulate ''4294967295'' acceptNegative acceptReals of
         (ok, st', rest) \<Rightarrow> ok \<and> FitsInUint32 st' \<and> unat (GetUint32 st') = 4294967295"
    by (simp add: run_simps FitsInUint32_def GetUint32_def)
  have c: "case Accumulate ''4294967296'' acceptNegative acceptReals of
         (ok, st', rest) \<Rightarrow> ok \<and> \<not> FitsInUint32 st'"
    by (simp add: run_simps FitsInUint32_def GetUint32_def)
  from a b c show ?thesis by blast
qed

theorem FitsInUint32_iff_witness:
  "FitsInUint32 (reset\<lparr>lvalue := 0, isNegative := True\<rparr>)
   \<and> \<not> FitsInUint32 (reset\<lparr>lvalue := 5, isNegative := True\<rparr>)
   \<and> FitsInUint32 (fst (snd (Accumulate ''4294967295'' False False)))
   \<and> \<not> FitsInUint32 (fst (snd (Accumulate ''4294967296'' False False)))"
  using FitsInUint32_iff [of "reset\<lparr>lvalue := 0, isNegative := True\<rparr>" False False]
        FitsInUint32_iff [of "reset\<lparr>lvalue := 5, isNegative := True\<rparr>" False False]
  by (auto simp: reset_def split: prod.splits)

section \<open>Digits after the decimal point\<close>

text \<open>
  C8, as the code has it. \<open>GetDigitsAfterPoint\<close> returns the negation of the smaller
  of the two exponents, which is the one of larger magnitude when it is negative, and
  \<open>0\<close> when that exponent is not negative. The literal \<open>429496.7296\<close> parses to
  \<open>twos = -3\<close> and \<open>fives = -4\<close>, and the function returns \<open>4\<close>.
\<close>

theorem GetDigitsAfterPoint_larger_magnitude:
  "int (unat (GetDigitsAfterPoint st)) =
     (if min (sint (fives st)) (sint (twos st)) < 0
      then - min (sint (fives st)) (sint (twos st)) else 0)
   \<and> (case Accumulate ''429496.7296'' acceptNegative True of
         (ok, st', rest) \<Rightarrow>
           ok \<and> sint (twos st') = - 3 \<and> sint (fives st') = - 4 \<and> GetDigitsAfterPoint st' = 4)"
proof -
  have a: "int (unat (GetDigitsAfterPoint st)) =
     (if min (sint (fives st)) (sint (twos st)) < 0
      then - min (sint (fives st)) (sint (twos st)) else 0)"
    using unat_neg_of_neg [of "fives st"] unat_neg_of_neg [of "twos st"]
    by (auto simp: GetDigitsAfterPoint_def Let_def word_sless_alt min_def)
  have b: "case Accumulate ''429496.7296'' acceptNegative True of
         (ok, st', rest) \<Rightarrow>
           ok \<and> sint (twos st') = - 3 \<and> sint (fives st') = - 4 \<and> GetDigitsAfterPoint st' = 4"
    by (simp add: run_simps GetDigitsAfterPoint_def word_sless_alt)
  from a b show ?thesis by blast
qed

theorem GetDigitsAfterPoint_larger_magnitude_witness:
  "int (unat (GetDigitsAfterPoint (reset\<lparr>fives := - 4, twos := - 3\<rparr>))) = 4
   \<and> int (unat (GetDigitsAfterPoint (reset\<lparr>fives := 1, twos := 0\<rparr>))) = 0"
  using GetDigitsAfterPoint_larger_magnitude [of "reset\<lparr>fives := - 4, twos := - 3\<rparr>" False]
        GetDigitsAfterPoint_larger_magnitude [of "reset\<lparr>fives := 1, twos := 0\<rparr>" False]
  by (simp add: reset_def)

text \<open>
  The claim as stated, with the smaller magnitude: on the state that parsing
  \<open>429496.7296\<close> leaves, \<open>twos = -3\<close> and \<open>fives = -4\<close>, the result is not \<open>3\<close>.
\<close>

theorem GetDigitsAfterPoint_counterexample:
  "fst (Accumulate ''429496.7296'' False True)
   \<and> sint (twos (fst (snd (Accumulate ''429496.7296'' False True)))) = - 3
   \<and> sint (fives (fst (snd (Accumulate ''429496.7296'' False True)))) = - 4
   \<and> GetDigitsAfterPoint (fst (snd (Accumulate ''429496.7296'' False True))) \<noteq> 3"
  by (simp add: run_simps GetDigitsAfterPoint_def word_sless_alt)

section \<open>The loops along the input\<close>

lemma zeros_loop_Nil: "zeros_loop aR (st, h, []) = (st, h, [])"
  by (subst zeros_loop.simps) (simp add: zeros_iter_def cur_def)

lemma zeros_loop_Cons:
  "zeros_loop aR (st, h, c # cs) =
     (if c = CHR ''0'' then zeros_loop aR (if hadDecimalPoint st then dec_both st else st, True, cs)
      else if c = CHR ''.'' \<and> \<not> hadDecimalPoint st \<and> aR
        then zeros_loop aR (st\<lparr>hadDecimalPoint := True\<rparr>, h, cs)
      else (st, h, c # cs))"
  by (subst zeros_loop.simps) (simp add: zeros_iter_def cur_def NextChar_def)

lemma digits_loop_Nil: "digits_loop aR (st, h, ov, []) = (st, h, ov, [])"
  by (subst digits_loop.simps) (simp add: digits_iter_def cur_def isdigit_def)

lemma digits_loop_Cons:
  "digits_loop aR (st, h, ov, c # cs) =
     (if isdigit c
        then digits_loop aR (fst (add_digit st ov (digit_of c)), True,
                             snd (add_digit st ov (digit_of c)), cs)
      else if c = CHR ''.'' \<and> \<not> hadDecimalPoint st \<and> aR
        then digits_loop aR (st\<lparr>hadDecimalPoint := True\<rparr>, h, ov, cs)
      else (st, h, ov, c # cs))"
  by (subst digits_loop.simps) (simp add: digits_iter_def cur_def NextChar_def split: prod.splits)

text \<open>A character that ends the mantissa leaves every step as the end of the input does.\<close>

lemma isdigit_0: "isdigit (CHR ''0'')"
  by (simp add: isdigit_def)

lemma skip_white_end:
  "ends_mantissa aR c \<Longrightarrow> skip_white (p @ c # t) = skip_white p @ c # t"
  by (induction p) (simp_all add: ends_mantissa_def)

lemma check_sign_end:
  "ends_mantissa aR c \<Longrightarrow> check_sign aN st (r @ c # t) =
     map_option (\<lambda>(st', r'). (st', r' @ c # t)) (check_sign aN st r)"
  by (cases r) (auto simp: check_sign_def cur_def NextChar_def ends_mantissa_def)

lemma zeros_loop_end:
  "ends_mantissa aR c \<Longrightarrow> zeros_loop aR (st, h, r @ c # t) =
     (case zeros_loop aR (st, h, r) of (st', h', r') \<Rightarrow> (st', h', r' @ c # t))"
proof (induction r arbitrary: st h)
  case Nil
  then have "c \<noteq> CHR ''0''" using isdigit_0 by (auto simp: ends_mantissa_def)
  with Nil show ?case by (auto simp: zeros_loop_Nil zeros_loop_Cons ends_mantissa_def)
next
  case (Cons a r)
  note IH = Cons.IH [OF Cons.prems]
  show ?case
  proof (cases aR)
    case True
    from True IH show ?thesis by (simp add: zeros_loop_Cons)
  next
    case False
    from False IH show ?thesis by (simp add: zeros_loop_Cons)
  qed
qed

lemma digits_loop_end:
  "ends_mantissa aR c \<Longrightarrow> digits_loop aR (st, h, ov, r @ c # t) =
     (case digits_loop aR (st, h, ov, r) of
        (st', h', ov', r') \<Rightarrow> (st', h', ov', r' @ c # t))"
proof (induction r arbitrary: st h ov)
  case Nil
  then show ?case by (auto simp: digits_loop_Nil digits_loop_Cons ends_mantissa_def)
next
  case (Cons a r)
  note IH = Cons.IH [OF Cons.prems]
  show ?case
  proof (cases aR)
    case True
    from True IH show ?thesis by (simp add: digits_loop_Cons)
  next
    case False
    from False IH show ?thesis by (simp add: digits_loop_Cons)
  qed
qed

lemma Accumulate_point_ends:
  "Accumulate (p @ CHR ''.'' # t) acceptNegative False =
     (case Accumulate p acceptNegative False of
        (ok, st, rest) \<Rightarrow> (ok, st, rest @ CHR ''.'' # t))"
proof -
  have e: "ends_mantissa False (CHR ''.'')" by (simp add: ends_mantissa_def isdigit_def)
  show ?thesis
    by (simp add: Accumulate_def skip_white_end [OF e] check_sign_end [OF e]
        zeros_loop_end [OF e] digits_loop_end [OF e] Let_def split: option.splits prod.splits)
qed

section \<open>The overflow policy along the input of Accumulate\<close>

lemma Accumulate_after_digit_loop:
  "Accumulate s aN aR =
     (case digit_loop_exit s aN aR of
        None \<Rightarrow> (False, reset, skip_white s)
      | Some (st4, hadDigit, overflowed, s4) \<Rightarrow>
          if \<not> hadDigit then (False, st4, s4)
          else if aR \<and> toupper (cur s4) = CHR ''E'' then read_exponent st4 s4
          else (True, st4, s4))"
  by (simp add: Accumulate_def digit_loop_exit_def Let_def split: option.splits prod.splits)

lemma skip_white_nonblank:
  "c \<noteq> CHR '' '' \<Longrightarrow> c \<noteq> CHR 0x09 \<Longrightarrow> skip_white (p @ c # t) = skip_white p @ c # t"
  by (induction p) simp_all

lemma check_sign_nonsign:
  "c \<noteq> CHR ''+'' \<Longrightarrow> c \<noteq> CHR ''-'' \<Longrightarrow> check_sign aN st (r @ c # t) =
     map_option (\<lambda>(st', r'). (st', r' @ c # t)) (check_sign aN st r)"
  by (cases r) (auto simp: check_sign_def cur_def NextChar_def)

lemma zeros_loop_append:
  "zeros_loop aR (st, h, r @ t) =
     (case zeros_loop aR (st, h, r) of
        (st', h', r') \<Rightarrow> if r' = [] then zeros_loop aR (st', h', t) else (st', h', r' @ t))"
proof (induction r arbitrary: st h)
  case Nil
  show ?case by (simp add: zeros_loop_Nil)
next
  case (Cons a r)
  note IH = Cons.IH
  show ?case
  proof (cases aR)
    case True
    from True IH show ?thesis by (simp add: zeros_loop_Cons)
  next
    case False
    from False IH show ?thesis by (simp add: zeros_loop_Cons)
  qed
qed

lemma digits_loop_append:
  "digits_loop aR (st, h, ov, r @ t) =
     (case digits_loop aR (st, h, ov, r) of
        (st', h', ov', r') \<Rightarrow>
          if r' = [] then digits_loop aR (st', h', ov', t) else (st', h', ov', r' @ t))"
proof (induction r arbitrary: st h ov)
  case Nil
  show ?case by (simp add: digits_loop_Nil)
next
  case (Cons a r)
  note IH = Cons.IH
  show ?case
  proof (cases aR)
    case True
    from True IH show ?thesis by (simp add: digits_loop_Cons)
  next
    case False
    from False IH show ?thesis by (simp add: digits_loop_Cons)
  qed
qed

lemma check_sign_lvalue:
  "check_sign aN st s = Some (st', s') \<Longrightarrow> lvalue st' = lvalue st"
  by (auto simp: check_sign_def split: if_splits)

lemma zeros_loop_lvalue:
  "zeros_loop aR (st, h, r) = (st', h', r') \<Longrightarrow> lvalue st' = lvalue st"
  by (induction r arbitrary: st h)
     (auto simp: zeros_loop_Nil zeros_loop_Cons dec_both_def split: if_splits)

lemma lvalue_0_update: "lvalue st = 0 \<Longrightarrow> st\<lparr>lvalue := 0\<rparr> = st"
  by (cases st) simp

lemma add_digit_zero:
  "lvalue st = 0 \<Longrightarrow>
   add_digit st False (digit_of (CHR ''0'')) = (if hadDecimalPoint st then dec_both st else st, False)"
  by (simp add: add_digit_def fits10_def UINT32_MAX_def digit_of_def Let_def lvalue_0_update)

lemma digit_loop_exit_digit:
  assumes p: "digit_loop_exit p aN aR = Some (st, h, ov, [])" and c: "isdigit c"
  shows "digit_loop_exit (p @ [c]) aN aR =
     Some (fst (add_digit st ov (digit_of c)), True, snd (add_digit st ov (digit_of c)), [])"
proof -
  note ns = isdigit_not_special [OF c]
  obtain st2 s2 where cs: "check_sign aN reset (skip_white p) = Some (st2, s2)"
    using p by (cases "check_sign aN reset (skip_white p)") (auto simp: digit_loop_exit_def)
  obtain st3 h3 s3 where z: "zeros_loop aR (st2, False, s2) = (st3, h3, s3)"
    by (cases "zeros_loop aR (st2, False, s2)")
  have d: "digits_loop aR (st3, h3, False, s3) = (st, h, ov, [])"
    using p cs z by (simp add: digit_loop_exit_def)
  have l3: "lvalue st3 = 0"
    using check_sign_lvalue [OF cs] zeros_loop_lvalue [OF z] by (simp add: reset_def)
  have cs': "check_sign aN reset (skip_white (p @ [c])) = Some (st2, s2 @ [c])"
    using ns cs by (simp add: skip_white_nonblank check_sign_nonsign)
  have one: "digits_loop aR (st', h', ov', [c]) =
      (fst (add_digit st' ov' (digit_of c)), True, snd (add_digit st' ov' (digit_of c)), [])"
    for st' h' ov'
    using c by (simp add: digits_loop_Cons digits_loop_Nil)
  have za: "zeros_loop aR (st2, False, s2 @ [c]) =
      (if s3 = [] then zeros_loop aR (st3, h3, [c]) else (st3, h3, s3 @ [c]))"
    using z by (simp add: zeros_loop_append [of aR st2 False s2 "[c]"])
  show ?thesis
  proof (cases "s3 = []")
    case False
    have "digits_loop aR (st3, h3, False, s3 @ [c]) = digits_loop aR (st, h, ov, [c])"
      using d by (simp add: digits_loop_append [of aR st3 h3 False s3 "[c]"])
    then show ?thesis
      using cs' za False one by (simp add: digit_loop_exit_def)
  next
    case True
    with d have e: "st = st3" "h = h3" "ov = False" by (simp_all add: digits_loop_Nil)
    show ?thesis
    proof (cases "c = CHR ''0''")
      case c0: True
      have zl: "zeros_loop aR (st3, h3, [c]) = (if hadDecimalPoint st3 then dec_both st3 else st3, True, [])"
        using c0 by (simp add: zeros_loop_Cons zeros_loop_Nil)
      have ad: "add_digit st3 False (digit_of c) = (if hadDecimalPoint st3 then dec_both st3 else st3, False)"
        using add_digit_zero [OF l3] c0 by simp
      show ?thesis
        unfolding digit_loop_exit_def cs' e
        by (simp add: za True zl ad digits_loop_Nil)
    next
      case c1: False
      have zl: "zeros_loop aR (st3, h3, [c]) = (st3, h3, [c])"
        using c1 ns by (simp add: zeros_loop_Cons)
      show ?thesis
        unfolding digit_loop_exit_def cs' e
        by (simp add: za True zl one)
    qed
  qed
qed

lemma digit_loop_exit_point:
  assumes p: "digit_loop_exit p aN True = Some (st, h, ov, [])" and np: "\<not> hadDecimalPoint st"
  shows "digit_loop_exit (p @ [CHR ''.'']) aN True =
     Some (st\<lparr>hadDecimalPoint := True\<rparr>, h, ov, [])"
proof -
  have nd: "\<not> isdigit (CHR ''.'')" by (simp add: isdigit_def)
  obtain st2 s2 where cs: "check_sign aN reset (skip_white p) = Some (st2, s2)"
    using p by (cases "check_sign aN reset (skip_white p)") (auto simp: digit_loop_exit_def)
  obtain st3 h3 s3 where z: "zeros_loop True (st2, False, s2) = (st3, h3, s3)"
    by (cases "zeros_loop True (st2, False, s2)")
  have d: "digits_loop True (st3, h3, False, s3) = (st, h, ov, [])"
    using p cs z by (simp add: digit_loop_exit_def)
  have cs': "check_sign aN reset (skip_white (p @ [CHR ''.''])) = Some (st2, s2 @ [CHR ''.''])"
    using cs by (simp add: skip_white_nonblank check_sign_nonsign)
  show ?thesis
  proof (cases "s3 = []")
    case False
    then show ?thesis
      using cs' z d np nd
      by (simp add: digit_loop_exit_def zeros_loop_append [of True st2 False s2 "[CHR ''.'']"]
            digits_loop_append [of True st3 h3 False s3 "[CHR ''.'']"]
            digits_loop_Cons digits_loop_Nil)
  next
    case True
    with d have e: "st = st3" "h = h3" "ov = False" by (simp_all add: digits_loop_Nil)
    then show ?thesis
      using cs' z True np
      by (simp add: digit_loop_exit_def zeros_loop_append [of True st2 False s2 "[CHR ''.'']"]
            zeros_loop_Cons zeros_loop_Nil digits_loop_Nil)
  qed
qed

lemma digit_loop_exit_start:
  assumes "\<forall>c\<in>set ws. c = CHR '' '' \<or> c = CHR 0x09"
    and "sg = [] \<or> sg = ''+'' \<or> (sg = ''-'' \<and> aN)"
  shows "digit_loop_exit (ws @ sg) aN aR = Some (reset\<lparr>isNegative := (sg = ''-'')\<rparr>, False, False, [])"
proof -
  have "skip_white (ws @ sg) = sg"
    using assms by (induction ws) auto
  then show ?thesis
    using assms(2)
    by (auto simp: digit_loop_exit_def check_sign_def cur_def NextChar_def zeros_loop_Nil
          digits_loop_Nil reset_def)
qed

lemma add_digit_flag:
  "isdigit c \<Longrightarrow>
   snd (add_digit st ov (digit_of c)) \<longleftrightarrow> ov \<or> 2 ^ 32 \<le> unat (lvalue st) * 10 + unat (digit_of c)"
  using fits10_iff [OF isdigit_digit_of, of c "lvalue st"]
  by (auto simp: add_digit_def Let_def)

lemma digit_loop_exit_Accumulate:
  "digit_loop_exit p aN aR = Some (st, h, ov, []) \<Longrightarrow> Accumulate p aN aR = (h, st, [])"
  by (simp add: Accumulate_after_digit_loop cur_def toupper_E_iff)

lemma digit_loop_exit_overflowed:
  assumes p: "digit_loop_exit p aN aR = Some (st, h, True, [])" and ds: "\<forall>c\<in>set ds. isdigit c"
  shows "digit_loop_exit (p @ ds) aN aR =
     Some (if hadDecimalPoint st then st
           else st\<lparr>fives := fives st + of_nat (length ds), twos := twos st + of_nat (length ds)\<rparr>,
           h \<or> ds \<noteq> [], True, [])"
  using ds
proof (induction ds rule: rev_induct)
  case Nil
  then show ?case using p by simp
next
  case (snoc c ds)
  then have c: "isdigit c" and IH: "digit_loop_exit (p @ ds) aN aR =
     Some (if hadDecimalPoint st then st
           else st\<lparr>fives := fives st + of_nat (length ds), twos := twos st + of_nat (length ds)\<rparr>,
           h \<or> ds \<noteq> [], True, [])"
    by simp_all
  from digit_loop_exit_digit [OF IH c] show ?case
    by (simp add: add_digit_def inc_both_def algebra_simps)
qed

text \<open>
  C1. For a digit \<open>c\<close> met while \<open>overflowed\<close> is still false, when
  \<open>lvalue * 10 + digit\<close> does not fit 32 bits: if \<open>lvalue * 5 + (digit + 1) / 2\<close> fits,
  that is the new mantissa, with \<open>twos\<close> incremented before the decimal point and
  \<open>fives\<close> decremented after it; failing that, if \<open>lvalue * 2 + (digit + 4) / 5\<close> fits,
  that is the new mantissa, with \<open>fives\<close> incremented before the point and \<open>twos\<close>
  decremented after it; failing both, the mantissa is kept and both exponents are
  incremented before the point. In all three cases \<open>overflowed\<close> becomes true. Once
  \<open>overflowed\<close> is true, a digit before the point increments both exponents and a digit
  after the point changes nothing.

  This is what \<open>Accumulate\<close> does along its input. \<open>overflowed\<close> becomes true exactly at
  the first digit that does not fit. \<open>Accumulate\<close> is its second loop followed by the
  check of \<open>hadDigit\<close> and the exponent; after blanks and a sign the loop is entered with
  \<open>overflowed\<close> false; a further digit \<open>c\<close> after an input \<open>p\<close> that the loops have read
  to its end is accumulated into the object and the flag that \<open>p\<close> left, and
  \<open>Accumulate\<close> returns that object; a decimal point keeps the flag; and once the flag
  is set, a run \<open>ds\<close> of further digits adds its length to both exponents before the
  point and changes nothing after it. On \<open>99999999999\<close> the tenth digit is folded in
  with the multiplier \<open>2\<close> and the eleventh increments both exponents; on
  \<open>42949672955.5\<close> the eleventh digit is dropped and the digit after the point changes
  nothing.
\<close>

theorem overflow_folding:
  assumes "isdigit c"
  shows
    "(2 ^ 32 \<le> unat (lvalue st) * 10 + unat (digit_of c) \<and>
        unat (lvalue st) * 5 + (unat (digit_of c) + 1) div 2 < 2 ^ 32 \<longrightarrow>
      add_digit st False (digit_of c) =
        (if hadDecimalPoint st
         then st\<lparr>lvalue := lvalue st * 5 + (digit_of c + 1) div 2, fives := fives st - 1\<rparr>
         else st\<lparr>lvalue := lvalue st * 5 + (digit_of c + 1) div 2, twos := twos st + 1\<rparr>,
         True))
   \<and> (2 ^ 32 \<le> unat (lvalue st) * 10 + unat (digit_of c) \<and>
        2 ^ 32 \<le> unat (lvalue st) * 5 + (unat (digit_of c) + 1) div 2 \<and>
        unat (lvalue st) * 2 + (unat (digit_of c) + 4) div 5 < 2 ^ 32 \<longrightarrow>
      add_digit st False (digit_of c) =
        (if hadDecimalPoint st
         then st\<lparr>lvalue := lvalue st * 2 + (digit_of c + 4) div 5, twos := twos st - 1\<rparr>
         else st\<lparr>lvalue := lvalue st * 2 + (digit_of c + 4) div 5, fives := fives st + 1\<rparr>,
         True))
   \<and> (2 ^ 32 \<le> unat (lvalue st) * 10 + unat (digit_of c) \<and>
        2 ^ 32 \<le> unat (lvalue st) * 5 + (unat (digit_of c) + 1) div 2 \<and>
        2 ^ 32 \<le> unat (lvalue st) * 2 + (unat (digit_of c) + 4) div 5 \<longrightarrow>
      add_digit st False (digit_of c) =
        (if hadDecimalPoint st then st
         else st\<lparr>fives := fives st + 1, twos := twos st + 1\<rparr>, True))
   \<and> add_digit st True (digit_of c) =
        (if hadDecimalPoint st then st
         else st\<lparr>fives := fives st + 1, twos := twos st + 1\<rparr>, True)
   \<and> (snd (add_digit st overflowed (digit_of c)) \<longleftrightarrow>
        overflowed \<or> 2 ^ 32 \<le> unat (lvalue st) * 10 + unat (digit_of c))
   \<and> Accumulate s acceptNegative acceptReals =
        (case digit_loop_exit s acceptNegative acceptReals of
           None \<Rightarrow> (False, reset, skip_white s)
         | Some (st4, hadDigit4, overflowed4, s4) \<Rightarrow>
             if \<not> hadDigit4 then (False, st4, s4)
             else if acceptReals \<and> toupper (cur s4) = CHR ''E'' then read_exponent st4 s4
             else (True, st4, s4))
   \<and> ((\<forall>b\<in>set ws. b = CHR '' '' \<or> b = CHR 0x09)
        \<and> (sg = [] \<or> sg = ''+'' \<or> (sg = ''-'' \<and> acceptNegative)) \<longrightarrow>
      digit_loop_exit (ws @ sg) acceptNegative acceptReals =
        Some (reset\<lparr>isNegative := (sg = ''-'')\<rparr>, False, False, []))
   \<and> (digit_loop_exit p acceptNegative acceptReals = Some (st, hadDigit, overflowed, []) \<longrightarrow>
      digit_loop_exit (p @ [c]) acceptNegative acceptReals =
        Some (fst (add_digit st overflowed (digit_of c)), True,
              snd (add_digit st overflowed (digit_of c)), [])
      \<and> Accumulate (p @ [c]) acceptNegative acceptReals =
          (True, fst (add_digit st overflowed (digit_of c)), []))
   \<and> (digit_loop_exit p acceptNegative True = Some (st, hadDigit, overflowed, [])
        \<and> \<not> hadDecimalPoint st \<longrightarrow>
      digit_loop_exit (p @ ''.'') acceptNegative True =
        Some (st\<lparr>hadDecimalPoint := True\<rparr>, hadDigit, overflowed, []))
   \<and> (digit_loop_exit p acceptNegative acceptReals = Some (st, hadDigit, True, [])
        \<and> (\<forall>b\<in>set ds. isdigit b) \<longrightarrow>
      digit_loop_exit (p @ ds) acceptNegative acceptReals =
        Some (if hadDecimalPoint st then st
              else st\<lparr>fives := fives st + of_nat (length ds),
                      twos := twos st + of_nat (length ds)\<rparr>,
              hadDigit \<or> ds \<noteq> [], True, []))
   \<and> Accumulate ''99999999999'' acceptNegative acceptReals =
        (True, reset\<lparr>lvalue := 2000000000, fives := 2, twos := 1\<rparr>, [])
   \<and> Accumulate ''42949672955.5'' acceptNegative True =
        (True, reset\<lparr>lvalue := 4294967295, fives := 1, twos := 1, hadDecimalPoint := True\<rparr>, [])"
proof -
  have d: "digit_of c \<le> 9" using assms by (rule isdigit_digit_of)
  note iffs = fits10_iff [OF d] fits5_iff fits2_iff unat_fivesDigit [OF d] unat_twosDigit [OF d]
  have body: "(2 ^ 32 \<le> unat (lvalue st) * 10 + unat (digit_of c) \<and>
        unat (lvalue st) * 5 + (unat (digit_of c) + 1) div 2 < 2 ^ 32 \<longrightarrow>
      add_digit st False (digit_of c) =
        (if hadDecimalPoint st
         then st\<lparr>lvalue := lvalue st * 5 + (digit_of c + 1) div 2, fives := fives st - 1\<rparr>
         else st\<lparr>lvalue := lvalue st * 5 + (digit_of c + 1) div 2, twos := twos st + 1\<rparr>,
         True))
   \<and> (2 ^ 32 \<le> unat (lvalue st) * 10 + unat (digit_of c) \<and>
        2 ^ 32 \<le> unat (lvalue st) * 5 + (unat (digit_of c) + 1) div 2 \<and>
        unat (lvalue st) * 2 + (unat (digit_of c) + 4) div 5 < 2 ^ 32 \<longrightarrow>
      add_digit st False (digit_of c) =
        (if hadDecimalPoint st
         then st\<lparr>lvalue := lvalue st * 2 + (digit_of c + 4) div 5, twos := twos st - 1\<rparr>
         else st\<lparr>lvalue := lvalue st * 2 + (digit_of c + 4) div 5, fives := fives st + 1\<rparr>,
         True))
   \<and> (2 ^ 32 \<le> unat (lvalue st) * 10 + unat (digit_of c) \<and>
        2 ^ 32 \<le> unat (lvalue st) * 5 + (unat (digit_of c) + 1) div 2 \<and>
        2 ^ 32 \<le> unat (lvalue st) * 2 + (unat (digit_of c) + 4) div 5 \<longrightarrow>
      add_digit st False (digit_of c) =
        (if hadDecimalPoint st then st
         else st\<lparr>fives := fives st + 1, twos := twos st + 1\<rparr>, True))
   \<and> add_digit st True (digit_of c) =
        (if hadDecimalPoint st then st
         else st\<lparr>fives := fives st + 1, twos := twos st + 1\<rparr>, True)"
    by (simp add: add_digit_def iffs inc_both_def Let_def not_less)
  have flag: "snd (add_digit st overflowed (digit_of c)) \<longleftrightarrow>
        overflowed \<or> 2 ^ 32 \<le> unat (lvalue st) * 10 + unat (digit_of c)"
    using assms by (rule add_digit_flag)
  have step: "digit_loop_exit (p @ [c]) acceptNegative acceptReals =
        Some (fst (add_digit st overflowed (digit_of c)), True,
              snd (add_digit st overflowed (digit_of c)), [])
      \<and> Accumulate (p @ [c]) acceptNegative acceptReals =
          (True, fst (add_digit st overflowed (digit_of c)), [])"
    if "digit_loop_exit p acceptNegative acceptReals = Some (st, hadDigit, overflowed, [])"
    using digit_loop_exit_digit [OF that assms]
      digit_loop_exit_Accumulate [OF digit_loop_exit_digit [OF that assms]] by simp
  have ex1: "Accumulate ''99999999999'' acceptNegative acceptReals =
        (True, reset\<lparr>lvalue := 2000000000, fives := 2, twos := 1\<rparr>, [])"
    by (simp add: run_simps)
  have ex2: "Accumulate ''42949672955.5'' acceptNegative True =
        (True, reset\<lparr>lvalue := 4294967295, fives := 1, twos := 1, hadDecimalPoint := True\<rparr>, [])"
    by (simp add: run_simps)
  show ?thesis
    using body flag step ex1 ex2
      Accumulate_after_digit_loop [of s acceptNegative acceptReals]
      digit_loop_exit_start [of ws sg acceptNegative acceptReals]
      digit_loop_exit_point [of p acceptNegative st hadDigit overflowed]
      digit_loop_exit_overflowed [of p acceptNegative acceptReals st hadDigit ds]
    by (intro conjI impI) (simp_all del: append.simps)
qed

theorem overflow_folding_witness:
  "isdigit (CHR ''6'')
   \<and> add_digit \<lparr>lvalue = 429496729, fives = 0, twos = 0, hadDecimalPoint = False,
                 hadExponent = False, isNegative = False\<rparr> False (digit_of (CHR ''6''))
     = (\<lparr>lvalue = 2147483648, fives = 0, twos = 1, hadDecimalPoint = False,
          hadExponent = False, isNegative = False\<rparr>, True)
   \<and> add_digit \<lparr>lvalue = 2000000000, fives = - 2, twos = - 2, hadDecimalPoint = True,
                 hadExponent = False, isNegative = False\<rparr> False (digit_of (CHR ''6''))
     = (\<lparr>lvalue = 4000000002, fives = - 2, twos = - 3, hadDecimalPoint = True,
          hadExponent = False, isNegative = False\<rparr>, True)
   \<and> add_digit \<lparr>lvalue = 4294967295, fives = 0, twos = 0, hadDecimalPoint = False,
                 hadExponent = False, isNegative = False\<rparr> False (digit_of (CHR ''6''))
     = (\<lparr>lvalue = 4294967295, fives = 1, twos = 1, hadDecimalPoint = False,
          hadExponent = False, isNegative = False\<rparr>, True)
   \<and> add_digit \<lparr>lvalue = 7, fives = - 1, twos = 0, hadDecimalPoint = True,
                 hadExponent = False, isNegative = False\<rparr> True (digit_of (CHR ''6''))
     = (\<lparr>lvalue = 7, fives = - 1, twos = 0, hadDecimalPoint = True,
          hadExponent = False, isNegative = False\<rparr>, True)
   \<and> digit_loop_exit ''-429496729'' True False
     = Some (\<lparr>lvalue = 429496729, fives = 0, twos = 0, hadDecimalPoint = False,
               hadExponent = False, isNegative = True\<rparr>, True, False, [])
   \<and> Accumulate (''-429496729'' @ [CHR ''6'']) True False
     = (True, \<lparr>lvalue = 2147483648, fives = 0, twos = 1, hadDecimalPoint = False,
                hadExponent = False, isNegative = True\<rparr>, [])
   \<and> digit_loop_exit (''-429496729'' @ [CHR ''6'']) True False
     = Some (\<lparr>lvalue = 2147483648, fives = 0, twos = 1, hadDecimalPoint = False,
               hadExponent = False, isNegative = True\<rparr>, True, True, [])
   \<and> digit_loop_exit ((''-429496729'' @ [CHR ''6'']) @ ''66'') True False
     = Some (\<lparr>lvalue = 2147483648, fives = 2, twos = 3, hadDecimalPoint = False,
               hadExponent = False, isNegative = True\<rparr>, True, True, [])"
proof -
  have a: "isdigit (CHR ''6'')" by (simp add: isdigit_def)
  have p: "digit_loop_exit ''-429496729'' True False
     = Some (\<lparr>lvalue = 429496729, fives = 0, twos = 0, hadDecimalPoint = False,
               hadExponent = False, isNegative = True\<rparr>, True, False, [])"
    by (simp add: digit_loop_exit_def run_simps)
  have q: "digit_loop_exit (''-429496729'' @ [CHR ''6'']) True False
     = Some (\<lparr>lvalue = 2147483648, fives = 0, twos = 1, hadDecimalPoint = False,
               hadExponent = False, isNegative = True\<rparr>, True, True, [])"
    by (simp add: digit_loop_exit_def run_simps)
  have ds: "\<forall>b\<in>set ''66''. isdigit b" by (simp add: isdigit_def)
  note t1 = overflow_folding [OF a, where st = "\<lparr>lvalue = 429496729, fives = 0, twos = 0,
      hadDecimalPoint = False, hadExponent = False, isNegative = False\<rparr>"]
  note t2 = overflow_folding [OF a, where st = "\<lparr>lvalue = 2000000000, fives = - 2, twos = - 2,
      hadDecimalPoint = True, hadExponent = False, isNegative = False\<rparr>"]
  note t3 = overflow_folding [OF a, where st = "\<lparr>lvalue = 4294967295, fives = 0, twos = 0,
      hadDecimalPoint = False, hadExponent = False, isNegative = False\<rparr>"]
  note t4 = overflow_folding [OF a, where st = "\<lparr>lvalue = 7, fives = - 1, twos = 0,
      hadDecimalPoint = True, hadExponent = False, isNegative = False\<rparr>"]
  note t5 = overflow_folding [OF a, where st = "\<lparr>lvalue = 429496729, fives = 0, twos = 0,
      hadDecimalPoint = False, hadExponent = False, isNegative = True\<rparr>"
      and p = "''-429496729''" and acceptNegative = True and acceptReals = False
      and hadDigit = True and overflowed = False]
  note t6 = overflow_folding [OF a, where st = "\<lparr>lvalue = 2147483648, fives = 0, twos = 1,
      hadDecimalPoint = False, hadExponent = False, isNegative = True\<rparr>"
      and p = "''-429496729'' @ [CHR ''6'']" and acceptNegative = True and acceptReals = False
      and hadDigit = True and ds = "''66''"]
  have r1: "add_digit \<lparr>lvalue = 429496729, fives = 0, twos = 0, hadDecimalPoint = False,
                 hadExponent = False, isNegative = False\<rparr> False (digit_of (CHR ''6''))
     = (\<lparr>lvalue = 2147483648, fives = 0, twos = 1, hadDecimalPoint = False,
          hadExponent = False, isNegative = False\<rparr>, True)"
    using t1 by (simp add: digit_of_def)
  have r2: "add_digit \<lparr>lvalue = 2000000000, fives = - 2, twos = - 2, hadDecimalPoint = True,
                 hadExponent = False, isNegative = False\<rparr> False (digit_of (CHR ''6''))
     = (\<lparr>lvalue = 4000000002, fives = - 2, twos = - 3, hadDecimalPoint = True,
          hadExponent = False, isNegative = False\<rparr>, True)"
    using t2 by (simp add: digit_of_def)
  have r3: "add_digit \<lparr>lvalue = 4294967295, fives = 0, twos = 0, hadDecimalPoint = False,
                 hadExponent = False, isNegative = False\<rparr> False (digit_of (CHR ''6''))
     = (\<lparr>lvalue = 4294967295, fives = 1, twos = 1, hadDecimalPoint = False,
          hadExponent = False, isNegative = False\<rparr>, True)"
    using t3 by (simp add: digit_of_def)
  have r4: "add_digit \<lparr>lvalue = 7, fives = - 1, twos = 0, hadDecimalPoint = True,
                 hadExponent = False, isNegative = False\<rparr> True (digit_of (CHR ''6''))
     = (\<lparr>lvalue = 7, fives = - 1, twos = 0, hadDecimalPoint = True,
          hadExponent = False, isNegative = False\<rparr>, True)"
    using t4 by (simp add: digit_of_def)
  have r5: "Accumulate (''-429496729'' @ [CHR ''6'']) True False
     = (True, \<lparr>lvalue = 2147483648, fives = 0, twos = 1, hadDecimalPoint = False,
                hadExponent = False, isNegative = True\<rparr>, [])"
    using t5 p by (simp add: run_simps)
  have r6: "digit_loop_exit ((''-429496729'' @ [CHR ''6'']) @ ''66'') True False
     = Some (\<lparr>lvalue = 2147483648, fives = 2, twos = 3, hadDecimalPoint = False,
               hadExponent = False, isNegative = True\<rparr>, True, True, [])"
    using t6 q ds by (simp del: append.simps)
  from a p q r1 r2 r3 r4 r5 r6 show ?thesis by (simp only: simp_thms)
qed

section \<open>Literals without a digit, and exponents without one\<close>

lemma skip_white_set: "set (skip_white s) \<subseteq> set s"
  by (induction s) auto

lemma check_sign_set: "check_sign aN st s = Some (st', s') \<Longrightarrow> set s' \<subseteq> set s"
  by (cases s) (auto simp: check_sign_def NextChar_def split: if_splits)

lemma zeros_loop_no_digit:
  "zeros_loop aR (st, h, r) = (st', h', r') \<Longrightarrow> \<forall>c\<in>set r. \<not> isdigit c
   \<Longrightarrow> h' = h \<and> (\<forall>c\<in>set r'. \<not> isdigit c)"
proof (induction r arbitrary: st h)
  case Nil
  then show ?case by (simp add: zeros_loop_Nil)
next
  case (Cons a r)
  then have "a \<noteq> CHR ''0''" using isdigit_0 by auto
  with Cons show ?case by (auto simp: zeros_loop_Cons split: if_splits)
qed

lemma digits_loop_no_digit:
  "digits_loop aR (st, h, ov, r) = (st', h', ov', r') \<Longrightarrow> \<forall>c\<in>set r. \<not> isdigit c \<Longrightarrow> h' = h"
proof (induction r arbitrary: st h)
  case Nil
  then show ?case by (simp add: digits_loop_Nil)
next
  case (Cons a r)
  then show ?case by (auto simp: digits_loop_Cons split: if_splits)
qed

lemma Accumulate_no_digit:
  assumes "\<forall>c\<in>set s. \<not> isdigit c"
  shows "\<not> fst (Accumulate s aN aR)"
proof (cases "check_sign aN reset (skip_white s)")
  case None
  then show ?thesis by (simp add: Accumulate_def)
next
  case (Some a)
  obtain st2 s2 where a: "a = (st2, s2)" by (cases a)
  obtain st3 h3 s3 where z: "zeros_loop aR (st2, False, s2) = (st3, h3, s3)"
    by (cases "zeros_loop aR (st2, False, s2)")
  obtain st4 h4 ov4 s4 where d: "digits_loop aR (st3, h3, False, s3) = (st4, h4, ov4, s4)"
    by (cases "digits_loop aR (st3, h3, False, s3)")
  have "\<forall>c\<in>set s2. \<not> isdigit c"
    using assms skip_white_set [of s] check_sign_set [OF Some [unfolded a]] by blast
  from zeros_loop_no_digit [OF z this] have "h3 = False" "\<forall>c\<in>set s3. \<not> isdigit c" by auto
  with digits_loop_no_digit [OF d] have "h4 = False" by simp
  then show ?thesis using Some a z d by (simp add: Accumulate_def)
qed

lemma apply_exponent_hadExponent:
  "hadExponent (apply_exponent n e st) = hadExponent st"
  by (simp add: apply_exponent_def)

lemma read_exponent_True:
  "read_exponent st s = (True, st', s') \<Longrightarrow> hadExponent st'"
  by (auto simp: read_exponent_def Let_def apply_exponent_hadExponent split: if_splits prod.splits)

lemma ends_mantissa_E: "c = CHR ''E'' \<or> c = CHR ''e'' \<Longrightarrow> ends_mantissa aR c"
  by (auto simp: ends_mantissa_def isdigit_def)

lemma exponent_needs_digit:
  assumes p: "Accumulate p acceptNegative True = (True, st, [])" and ne: "\<not> hadExponent st"
    and e: "e = CHR ''E'' \<or> e = CHR ''e''"
    and r: "\<not> isdigit (cur (if cur r = CHR ''-'' \<or> cur r = CHR ''+'' then NextChar r else r))"
  shows "\<not> fst (Accumulate (p @ e # r) acceptNegative True)"
proof -
  note em = ends_mantissa_E [OF e, of True]
  obtain st2 s2 where c: "check_sign acceptNegative reset (skip_white p) = Some (st2, s2)"
    using p by (cases "check_sign acceptNegative reset (skip_white p)") (auto simp: Accumulate_def)
  obtain st3 h3 s3 where z: "zeros_loop True (st2, False, s2) = (st3, h3, s3)"
    by (cases "zeros_loop True (st2, False, s2)")
  obtain st4 h4 ov4 s4 where d: "digits_loop True (st3, h3, False, s3) = (st4, h4, ov4, s4)"
    by (cases "digits_loop True (st3, h3, False, s3)")
  have h4: h4 using p c z d by (auto simp: Accumulate_def split: if_splits)
  have s4: "s4 = []"
    using p c z d ne by (auto simp: Accumulate_def split: if_splits dest: read_exponent_True)
  have "Accumulate (p @ e # r) acceptNegative True = read_exponent st4 (e # r)"
    using c z d h4 s4 e
    by (simp add: Accumulate_def skip_white_end [OF em] check_sign_end [OF em]
          zeros_loop_end [OF em] digits_loop_end [OF em] toupper_E_iff cur_def)
  moreover have "\<not> fst (read_exponent st4 (e # r))"
    using r by (simp add: read_exponent_def Let_def NextChar_def)
  ultimately show ?thesis by simp
qed

lemma zeros_loop_replicate:
  "\<not> hadDecimalPoint st \<Longrightarrow>
   zeros_loop aR (st, h, replicate n (CHR ''0'')) = (st, h \<or> 0 < n, [])"
  by (induction n arbitrary: h) (simp_all add: zeros_loop_Nil zeros_loop_Cons)

lemma Accumulate_zeros:
  "0 < n \<Longrightarrow> Accumulate (replicate n (CHR ''0'')) aN aR = (True, reset, [])"
proof -
  assume n: "0 < n"
  then obtain m where m: "n = Suc m" by (cases n) auto
  have np: "\<not> hadDecimalPoint reset" by (simp add: reset_def)
  have "skip_white (replicate n (CHR ''0'')) = replicate n (CHR ''0'')"
    by (simp add: m)
  moreover have "check_sign aN reset (replicate n (CHR ''0'')) = Some (reset, replicate n (CHR ''0''))"
    by (simp add: m check_sign_def cur_def)
  ultimately show ?thesis
    using n by (simp add: Accumulate_def zeros_loop_replicate [OF np] digits_loop_Nil cur_def toupper_E_iff)
qed

text \<open>
  C6. \<open>Accumulate\<close> returns false on every input without a digit, \<open>.\<close>, the empty
  input and \<open>e5\<close> among them. With reals accepted, when a literal \<open>p\<close> that parses
  completely without an exponent is followed by \<open>E\<close> or \<open>e\<close>, an optional sign and
  then no digit, \<open>Accumulate\<close> returns false, as on \<open>1e\<close>. An input of one or more
  zeros is a valid parse, of zero.
\<close>

theorem no_digit_no_value:
  "((\<forall>c\<in>set s. \<not> isdigit c) \<longrightarrow> \<not> fst (Accumulate s acceptNegative acceptReals))
   \<and> \<not> fst (Accumulate ''.'' acceptNegative acceptReals)
   \<and> \<not> fst (Accumulate [] acceptNegative acceptReals)
   \<and> \<not> fst (Accumulate ''e5'' acceptNegative acceptReals)
   \<and> (Accumulate p acceptNegative True = (True, st, []) \<and> \<not> hadExponent st
        \<and> (e = CHR ''E'' \<or> e = CHR ''e'')
        \<and> \<not> isdigit (cur (if cur r = CHR ''-'' \<or> cur r = CHR ''+'' then NextChar r else r))
      \<longrightarrow> \<not> fst (Accumulate (p @ e # r) acceptNegative True))
   \<and> \<not> fst (Accumulate ''1e'' acceptNegative True)
   \<and> (0 < n \<longrightarrow> Accumulate (replicate n (CHR ''0'')) acceptNegative acceptReals = (True, reset, []))"
proof -
  have a: "\<not> fst (Accumulate ''.'' acceptNegative acceptReals)"
    by (cases acceptReals) (simp_all add: run_simps)
  have b: "\<not> fst (Accumulate [] acceptNegative acceptReals)"
    by (simp add: run_simps)
  have c: "\<not> fst (Accumulate ''e5'' acceptNegative acceptReals)"
    by (simp add: run_simps)
  have d: "\<not> fst (Accumulate ''1e'' acceptNegative True)"
    by (simp add: run_simps)
  from a b c d Accumulate_no_digit exponent_needs_digit Accumulate_zeros
  show ?thesis by blast
qed

theorem no_digit_no_value_witness:
  "\<not> fst (Accumulate ''-.x'' True True)
   \<and> Accumulate ''1.5'' True True = (True, reset\<lparr>lvalue := 15, fives := - 1, twos := - 1, hadDecimalPoint := True\<rparr>, [])
   \<and> \<not> fst (Accumulate (''1.5'' @ CHR ''E'' # ''-x'') True True)
   \<and> Accumulate (replicate 3 (CHR ''0'')) True True = (True, reset, [])"
  using no_digit_no_value [of "''-.x''" True True "''1.5''"
      "reset\<lparr>lvalue := 15, fives := - 1, twos := - 1, hadDecimalPoint := True\<rparr>" "CHR ''E''" "''-x''" 3]
  by (simp add: run_simps)

section \<open>A decimal point when reals are not accepted\<close>

lemma zeros_loop_no_point:
  "zeros_loop False (st, h, r) = (st', h', r') \<Longrightarrow> hadDecimalPoint st' = hadDecimalPoint st"
  by (induction r arbitrary: st h)
     (auto simp: zeros_loop_Nil zeros_loop_Cons dec_both_def split: if_splits)

lemma add_digit_hadDecimalPoint:
  "hadDecimalPoint (fst (add_digit st ov d)) = hadDecimalPoint st"
  by (simp add: add_digit_def inc_both_def dec_both_def Let_def)

lemma digits_loop_no_point:
  "digits_loop False (st, h, ov, r) = (st', h', ov', r') \<Longrightarrow> hadDecimalPoint st' = hadDecimalPoint st"
  by (induction r arbitrary: st h ov)
     (auto simp: digits_loop_Nil digits_loop_Cons add_digit_hadDecimalPoint split: if_splits)

lemma Accumulate_no_point:
  "\<not> hadDecimalPoint (fst (snd (Accumulate s acceptNegative False)))"
  by (auto simp: Accumulate_def Let_def check_sign_def reset_def
        split: option.splits prod.splits if_splits
        dest!: zeros_loop_no_point digits_loop_no_point)

text \<open>
  C7, as the code has it. With \<open>acceptReals = false\<close> a decimal point is not consumed:
  it ends the literal as the end of the input would. The result and the object are
  those of the input cut before the point, the point stays in the input, and
  \<open>hadDecimalPoint\<close> is never set. So \<open>1.5\<close> returns true with mantissa \<open>1\<close>, and an
  input that starts with the point returns false, for want of a digit.
\<close>

theorem point_ends_integer_literal:
  "Accumulate (p @ CHR ''.'' # t) acceptNegative False =
     (case Accumulate p acceptNegative False of
        (ok, st, rest) \<Rightarrow> (ok, st, rest @ CHR ''.'' # t))
   \<and> \<not> hadDecimalPoint (fst (snd (Accumulate s acceptNegative False)))
   \<and> Accumulate ''1.5'' acceptNegative False = (True, reset\<lparr>lvalue := 1\<rparr>, ''.5'')
   \<and> Accumulate (CHR ''.'' # t) acceptNegative False = (False, reset, CHR ''.'' # t)"
proof -
  have a: "Accumulate ''1.5'' acceptNegative False = (True, reset\<lparr>lvalue := 1\<rparr>, ''.5'')"
    by (simp add: run_simps)
  have b: "Accumulate (CHR ''.'' # t) acceptNegative False = (False, reset, CHR ''.'' # t)"
    by (simp add: run_simps)
  from a b Accumulate_point_ends Accumulate_no_point show ?thesis by blast
qed

theorem point_ends_integer_literal_witness:
  "Accumulate (''12'' @ CHR ''.'' # ''5'') False False = (True, reset\<lparr>lvalue := 12\<rparr>, ''.5'')"
  using point_ends_integer_literal [of "''12''" "''5''" False]
  by (simp add: run_simps)

text \<open>
  The claim as stated: on \<open>1.5\<close> with \<open>acceptReals = false\<close> the call would return
  false. It returns true.
\<close>

theorem point_rejected_counterexample:
  "Accumulate ''1.5'' False False =
     (True, \<lparr>lvalue = 1, fives = 0, twos = 0, hadDecimalPoint = False,
             hadExponent = False, isNegative = False\<rparr>, ''.5'')"
  by (simp add: run_simps)

section \<open>The distance between the two exponents\<close>

lemma uint_succ32: "uint (b + 1 :: 32 word) = (if uint b = 4294967295 then 0 else uint b + 1)"
proof -
  have b: "uint b < 4294967296" using uint_lt2p [of b] by simp
  have s: "uint (b + 1) = (uint b + 1) mod 4294967296"
    by (simp add: uint_word_ariths)
  show ?thesis
  proof (cases "uint b = 4294967295")
    case True
    then show ?thesis using s by simp
  next
    case False
    have "0 \<le> uint b" by simp
    then have "(uint b + 1) mod 4294967296 = uint b + 1"
      using b False by (intro mod_wrap_int(1)) linarith+
    then show ?thesis using False s by simp
  qed
qed

lemma sint_succ32:
  "sint (b + 1 :: 32 word) = (if sint b = 2147483647 then - 2147483648 else sint b + 1)"
proof -
  have b: "uint b < 4294967296" using uint_lt2p [of b] by simp
  have "0 \<le> uint b" by simp
  then show ?thesis using b
    by (simp add: sint32 [of "b + 1"] sint32 [of b] uint_succ32)
qed

lemma sint_diff_cases:
  fixes a b :: "32 word"
  assumes "a - b = 0 \<or> a - b = 1 \<or> a - b = - 1"
  shows "\<bar>sint a - sint b\<bar> \<le> 1 \<or> \<bar>sint a - sint b\<bar> = 4294967295"
proof -
  from assms consider "a = b" | "a = b + 1" | "b = a + 1"
    by (auto simp: algebra_simps eq_neg_iff_add_eq_0 add_eq_0_iff)
  then show ?thesis
  proof cases
    case 1 then show ?thesis by simp
  next
    case 2 then show ?thesis by (simp add: sint_succ32)
  next
    case 3 then show ?thesis by (simp add: sint_succ32)
  qed
qed

lemma check_sign_exponents:
  "check_sign aN st s = Some (st', s') \<Longrightarrow> twos st' = twos st \<and> fives st' = fives st"
  by (auto simp: check_sign_def split: if_splits)

lemma zeros_iter_equal:
  "zeros_iter aR x = Some y \<Longrightarrow> twos (fst x) = fives (fst x) \<Longrightarrow> twos (fst y) = fives (fst y)"
  by (cases x) (auto simp: zeros_iter_def dec_both_def split: if_splits)

lemma zeros_steps_equal:
  "(\<lambda>a b. zeros_iter aR a = Some b)\<^sup>*\<^sup>* x y \<Longrightarrow> twos (fst x) = fives (fst x)
   \<Longrightarrow> twos (fst y) = fives (fst y)"
  by (induction rule: rtranclp_induct) (auto dest: zeros_iter_equal)

lemma zeros_loop_steps:
  "(\<lambda>a b. zeros_iter aR a = Some b)\<^sup>*\<^sup>* cfg (zeros_loop aR cfg)"
proof (induction aR cfg rule: zeros_loop.induct)
  case (1 aR cfg)
  show ?case
  proof (cases "zeros_iter aR cfg")
    case None
    then show ?thesis by (subst zeros_loop.simps) simp
  next
    case (Some cfg')
    from 1 [OF Some] Some show ?thesis
      by (subst zeros_loop.simps) (simp add: converse_rtranclp_into_rtranclp)
  qed
qed

lemma add_digit_inv:
  "digits_inv (st, h, ov, s) \<Longrightarrow> digits_inv (fst (add_digit st ov d), h', snd (add_digit st ov d), s')"
  by (auto simp: digits_inv_def exponents_close_mod_def add_digit_def inc_both_def dec_both_def
        Let_def split: if_splits)

lemma digits_iter_inv:
  "digits_iter aR x = Some y \<Longrightarrow> digits_inv x \<Longrightarrow> digits_inv y"
proof -
  assume a: "digits_iter aR x = Some y" and i: "digits_inv x"
  obtain st h ov s where x: "x = (st, h, ov, s)" by (cases x)
  show ?thesis
  proof (cases "isdigit (cur s)")
    case True
    with a x have "y = (fst (add_digit st ov (digit_of (cur s))), True,
                        snd (add_digit st ov (digit_of (cur s))), NextChar s)"
      by (auto simp: digits_iter_def split: prod.splits)
    then show ?thesis using add_digit_inv i x by simp
  next
    case False
    with a x i show ?thesis
      by (auto simp: digits_iter_def digits_inv_def exponents_close_mod_def split: if_splits)
  qed
qed

lemma digits_steps_inv:
  "(\<lambda>a b. digits_iter aR a = Some b)\<^sup>*\<^sup>* x y \<Longrightarrow> digits_inv x \<Longrightarrow> digits_inv y"
  by (induction rule: rtranclp_induct) (auto dest: digits_iter_inv)

lemma digits_loop_steps:
  "(\<lambda>a b. digits_iter aR a = Some b)\<^sup>*\<^sup>* cfg (digits_loop aR cfg)"
proof (induction aR cfg rule: digits_loop.induct)
  case (1 aR cfg)
  show ?case
  proof (cases "digits_iter aR cfg")
    case None
    then show ?thesis by (subst digits_loop.simps) simp
  next
    case (Some cfg')
    from 1 [OF Some] Some show ?thesis
      by (subst digits_loop.simps) (simp add: converse_rtranclp_into_rtranclp)
  qed
qed

lemma digits_inv_close: "digits_inv (st, h, ov, s) \<Longrightarrow> exponents_close_mod st"
  by (auto simp: digits_inv_def exponents_close_mod_def split: if_splits)

lemma read_exponent_close:
  "exponents_close_mod st \<Longrightarrow> exponents_close_mod (fst (snd (read_exponent st s)))"
  by (auto simp: read_exponent_def apply_exponent_def exponents_close_mod_def Let_def
        split: prod.splits)

lemma Accumulate_point_mod:
  assumes "Accumulate_point s aN aR st"
  shows "exponents_close_mod st"
  using assms
proof (induction rule: Accumulate_point.induct)
  case at_reset
  then show ?case by (simp add: exponents_close_mod_def reset_def)
next
  case (at_sign st s2)
  from check_sign_exponents [OF this] show ?case
    by (simp add: exponents_close_mod_def reset_def)
next
  case (in_zeros st2 s2 st h s')
  from check_sign_exponents [OF in_zeros(1)] have "twos st2 = fives st2"
    by (simp add: reset_def)
  with zeros_steps_equal [OF in_zeros(2)] show ?case
    by (simp add: exponents_close_mod_def)
next
  case (in_digits st2 s2 st3 h3 s3 st h ov s')
  from check_sign_exponents [OF in_digits(1)] have "twos st2 = fives st2"
    by (simp add: reset_def)
  with zeros_steps_equal [OF zeros_loop_steps [of aR "(st2, False, s2)"]] in_digits(2)
  have "twos st3 = fives st3" by simp
  then have "digits_inv (st3, h3, False, s3)" by (simp add: digits_inv_def)
  from digits_steps_inv [OF in_digits(3) this] show ?case by (rule digits_inv_close)
next
  case (at_exponent st2 s2 st3 h3 s3 st4 ov s4)
  from check_sign_exponents [OF at_exponent(1)] have "twos st2 = fives st2"
    by (simp add: reset_def)
  with zeros_steps_equal [OF zeros_loop_steps [of aR "(st2, False, s2)"]] at_exponent(2)
  have "twos st3 = fives st3" by simp
  then have "digits_inv (st3, h3, False, s3)" by (simp add: digits_inv_def)
  from digits_steps_inv [OF digits_loop_steps [of aR "(st3, h3, False, s3)"] this] at_exponent(3)
  have "exponents_close_mod st4" by (auto dest: digits_inv_close)
  then show ?case by (simp add: exponents_close_mod_def)
next
  case (at_return ok st s')
  show ?case
  proof (cases "check_sign aN reset (skip_white s)")
    case None
    with at_return show ?thesis
      by (auto simp: Accumulate_def exponents_close_mod_def reset_def)
  next
    case (Some a)
    obtain st2 s2 where a: "a = (st2, s2)" by (cases a)
    obtain st3 h3 s3 where z: "zeros_loop aR (st2, False, s2) = (st3, h3, s3)"
      by (cases "zeros_loop aR (st2, False, s2)")
    obtain st4 h4 ov4 s4 where d: "digits_loop aR (st3, h3, False, s3) = (st4, h4, ov4, s4)"
      by (cases "digits_loop aR (st3, h3, False, s3)")
    from check_sign_exponents [OF Some [unfolded a]] have "twos st2 = fives st2"
      by (simp add: reset_def)
    with zeros_steps_equal [OF zeros_loop_steps [of aR "(st2, False, s2)"]] z
    have "twos st3 = fives st3" by simp
    then have "digits_inv (st3, h3, False, s3)" by (simp add: digits_inv_def)
    from digits_steps_inv [OF digits_loop_steps [of aR "(st3, h3, False, s3)"] this] d
    have c4: "exponents_close_mod st4" by (auto dest: digits_inv_close)
    from at_return Some a z d have
      "st = st4 \<or> st = fst (snd (read_exponent st4 s4))"
      by (auto simp: Accumulate_def split: if_splits)
    with c4 read_exponent_close [OF c4] show ?thesis by auto
  qed
qed

text \<open>
  C3, as the code has it. At every point of a run of \<open>Accumulate\<close> the two exponents
  differ by \<open>0\<close>, \<open>1\<close> or \<open>-1\<close> in 32-bit arithmetic. Read as signed integers they
  differ by at most \<open>1\<close>, unless the wrap-around of \<open>int\<close> lies between them: then
  one is \<open>-2^31\<close>, the other \<open>2^31 - 1\<close>, and the distance is \<open>2^32 - 1\<close>.
\<close>

theorem exponents_close_modulo:
  "Accumulate_point s acceptNegative acceptReals st \<longrightarrow>
     exponents_close_mod st
     \<and> (exponents_close st \<or> \<bar>sint (twos st) - sint (fives st)\<bar> = 2 ^ 32 - 1)"
proof
  assume "Accumulate_point s acceptNegative acceptReals st"
  then have m: "exponents_close_mod st" by (rule Accumulate_point_mod)
  then have "\<bar>sint (twos st) - sint (fives st)\<bar> \<le> 1
      \<or> \<bar>sint (twos st) - sint (fives st)\<bar> = 4294967295"
    unfolding exponents_close_mod_def by (rule sint_diff_cases)
  with m show "exponents_close_mod st
     \<and> (exponents_close st \<or> \<bar>sint (twos st) - sint (fives st)\<bar> = 2 ^ 32 - 1)"
    by (simp add: exponents_close_def)
qed

theorem exponents_close_modulo_witness:
  "Accumulate_point ''4294967296e2147483647'' False True
     \<lparr>lvalue = 2147483648, fives = 2147483647, twos = - 2147483648,
      hadDecimalPoint = False, hadExponent = True, isNegative = False\<rparr>
   \<and> exponents_close_mod
     \<lparr>lvalue = 2147483648, fives = 2147483647, twos = - 2147483648,
      hadDecimalPoint = False, hadExponent = True, isNegative = False\<rparr>"
proof -
  have "Accumulate ''4294967296e2147483647'' False True =
     (True, \<lparr>lvalue = 2147483648, fives = 2147483647, twos = - 2147483648,
      hadDecimalPoint = False, hadExponent = True, isNegative = False\<rparr>, [])"
    by (simp add: run_simps)
  then have p: "Accumulate_point ''4294967296e2147483647'' False True
     \<lparr>lvalue = 2147483648, fives = 2147483647, twos = - 2147483648,
      hadDecimalPoint = False, hadExponent = True, isNegative = False\<rparr>"
    by (rule at_return)
  with exponents_close_modulo [of "''4294967296e2147483647''" False True
     "\<lparr>lvalue = 2147483648, fives = 2147483647, twos = - 2147483648,
      hadDecimalPoint = False, hadExponent = True, isNegative = False\<rparr>"]
  show ?thesis by blast
qed

text \<open>
  The claim as stated, on signed integers: after the exponent of
  \<open>4294967296e2147483647\<close> is applied, \<open>twos\<close> is \<open>-2147483648\<close> and \<open>fives\<close> is
  \<open>2147483647\<close>.
\<close>

theorem exponents_close_counterexample:
  "Accumulate_point ''4294967296e2147483647'' False True
     \<lparr>lvalue = 2147483648, fives = 2147483647, twos = - 2147483648,
      hadDecimalPoint = False, hadExponent = True, isNegative = False\<rparr>
   \<and> \<not> exponents_close
     \<lparr>lvalue = 2147483648, fives = 2147483647, twos = - 2147483648,
      hadDecimalPoint = False, hadExponent = True, isNegative = False\<rparr>"
proof -
  have "Accumulate ''4294967296e2147483647'' False True =
     (True, \<lparr>lvalue = 2147483648, fives = 2147483647, twos = - 2147483648,
      hadDecimalPoint = False, hadExponent = True, isNegative = False\<rparr>, [])"
    by (simp add: run_simps)
  then have "Accumulate_point ''4294967296e2147483647'' False True
     \<lparr>lvalue = 2147483648, fives = 2147483647, twos = - 2147483648,
      hadDecimalPoint = False, hadExponent = True, isNegative = False\<rparr>"
    by (rule at_return)
  then show ?thesis by (simp add: exponents_close_def)
qed

section \<open>SafeStrtoul and the minus sign\<close>

lemma skip_white_blanks:
  "\<forall>c\<in>set ws. c = CHR '' '' \<or> c = CHR 0x09 \<Longrightarrow> c \<noteq> CHR '' '' \<Longrightarrow> c \<noteq> CHR 0x09
   \<Longrightarrow> skip_white (ws @ c # rest) = c # rest"
  by (induction ws) auto

text \<open>
  C9, as the code has it. When the first character after the leading spaces and tabs is
  \<open>-\<close>, \<open>SafeStrtoul\<close> returns \<open>0\<close> and sets the end pointer to that minus sign, after
  the blanks it has skipped: no character of a number is consumed, and the length from
  the start of the string to the end pointer is the number of leading blanks, zero
  when there is none. \<open>strtoul\<close> is not called, the result being the same whatever
  \<open>strtoul\<close> is. On every other input the result is that of \<open>strtoul\<close> on the string
  after the blanks, with the caller's base.
\<close>

theorem SafeStrtoul_minus_position:
  "((\<forall>c\<in>set ws. c = CHR '' '' \<or> c = CHR 0x09) \<longrightarrow>
      SafeStrtoul strtoul (ws @ CHR ''-'' # rest) base = (0, CHR ''-'' # rest)
      \<and> consumed (ws @ CHR ''-'' # rest)
           (snd (SafeStrtoul strtoul (ws @ CHR ''-'' # rest) base)) = length ws)
   \<and> SafeStrtoul strtoul (CHR ''-'' # rest) base = (0, CHR ''-'' # rest)
   \<and> consumed (CHR ''-'' # rest) (snd (SafeStrtoul strtoul (CHR ''-'' # rest) base)) = 0
   \<and> (cur (skip_white s) = CHR ''-'' \<longrightarrow> SafeStrtoul strtoul s base = (0, skip_white s))
   \<and> (cur (skip_white s) \<noteq> CHR ''-'' \<longrightarrow>
      SafeStrtoul strtoul s base = strtoul (skip_white s) base)"
  by (simp add: SafeStrtoul_def skip_white_blanks cur_def consumed_def Let_def)

theorem SafeStrtoul_minus_position_witness:
  "SafeStrtoul strtoul_none ([CHR '' '', CHR 0x09] @ CHR ''-'' # ''5'') 10 = (0, ''-5'')
   \<and> consumed ([CHR '' '', CHR 0x09] @ CHR ''-'' # ''5'')
        (snd (SafeStrtoul strtoul_none ([CHR '' '', CHR 0x09] @ CHR ''-'' # ''5'') 10)) = 2
   \<and> SafeStrtoul strtoul_none '' 12'' 10 = (0, ''12'')"
  using SafeStrtoul_minus_position [where ws = "[CHR '' '', CHR 0x09]" and strtoul = strtoul_none
      and rest = "''5''" and base = 10 and s = "'' 12''"]
  by (simp add: cur_def strtoul_none_def consumed_def)

text \<open>
  The claim as stated, with a consumed length of zero: on \<open>" -5"\<close> the end pointer is
  one character past the start.
\<close>

theorem SafeStrtoul_zero_length_counterexample:
  "SafeStrtoul strtoul_none '' -5'' 10 = (0, ''-5'')
   \<and> consumed '' -5'' (snd (SafeStrtoul strtoul_none '' -5'' 10)) = 1"
  by (simp add: SafeStrtoul_def cur_def consumed_def Let_def)

section \<open>SafeStrtod and a fraction of zeros\<close>

lemma before_point_digits:
  "\<forall>c\<in>set d. isdigit c \<Longrightarrow> \<not> isdigit c' \<Longrightarrow>
   before_point ops v (d @ c' # t) = (fst (before_point ops v d), c' # t)"
  by (induction d arbitrary: v) simp_all

lemma after_point_zeros:
  "\<not> isdigit c' \<Longrightarrow>
   after_point (0, k, False) (replicate n (CHR ''0'') @ c' # t) = ((0, k + of_nat n, False), c' # t)"
  by (induction n arbitrary: k) (simp_all add: isdigit_0 digit_of_def ULONG_MAX_def algebra_simps)

lemma not_isdigit_E: "e = CHR ''E'' \<or> e = CHR ''e'' \<Longrightarrow> \<not> isdigit e"
  by (auto simp: isdigit_def)

lemma skip_front:
  assumes "\<forall>c\<in>set d. isdigit c" and "c' = CHR ''.'' \<or> c' = CHR ''E'' \<or> c' = CHR ''e''"
  shows "skip_sign (skip_white (d @ c' # t)) = (False, d @ c' # t)"
proof (cases d)
  case Nil
  with assms(2) show ?thesis by (auto simp: skip_sign_def cur_def Let_def)
next
  case (Cons a d')
  with assms(1) have "isdigit a" by simp
  from isdigit_not_special [OF this] Cons show ?thesis
    by (simp add: skip_sign_def cur_def Let_def)
qed

lemma SafeStrtod_integer:
  assumes d: "\<forall>c\<in>set d. isdigit c" and e: "e = CHR ''E'' \<or> e = CHR ''e''"
  shows "SafeStrtod ops (d @ e # r) =
     (d_TimesPowerOf10 ops (fst (before_point ops (d_of ops 0) d))
        (sint (fst (strtod_exponent (e # r)))), snd (strtod_exponent (e # r)))"
proof -
  have ne: "e \<noteq> CHR ''.''" using e by auto
  show ?thesis
    using e ne
    by (simp add: SafeStrtod_def skip_front [OF d] before_point_digits [OF d not_isdigit_E [OF e]]
          cur_def Let_def split: prod.splits)
qed

lemma SafeStrtod_zero_fraction:
  assumes d: "\<forall>c\<in>set d. isdigit c" and e: "e = CHR ''E'' \<or> e = CHR ''e''"
  shows "SafeStrtod ops (d @ CHR ''.'' # replicate n (CHR ''0'') @ e # r) =
     (d_TimesPowerOf10 ops (fst (before_point ops (d_of ops 0) d))
        (sint (fst (strtod_exponent (e # r)))), snd (strtod_exponent (e # r)))"
proof -
  have np: "\<not> isdigit (CHR ''.'')" by (simp add: isdigit_def)
  show ?thesis
    by (simp add: SafeStrtod_def skip_front [OF d] before_point_digits [OF d np]
          after_point_zeros [OF not_isdigit_E [OF e]] cur_def NextChar_def Let_def
          split: prod.splits)
qed

lemma skip_white_past_blanks:
  "\<forall>c\<in>set ws. c = CHR '' '' \<or> c = CHR 0x09 \<Longrightarrow> cur x \<noteq> CHR '' '' \<Longrightarrow> cur x \<noteq> CHR 0x09
   \<Longrightarrow> skip_white (ws @ x) = x"
proof (induction ws)
  case Nil
  then show ?case by (cases x) (simp_all add: cur_def)
next
  case (Cons a ws)
  then show ?case by auto
qed

lemma skip_sign_at:
  "sg = [] \<or> sg = ''+'' \<or> sg = ''-'' \<Longrightarrow> (sg = [] \<longrightarrow> cur y \<noteq> CHR ''+'' \<and> cur y \<noteq> CHR ''-'')
   \<Longrightarrow> skip_sign (sg @ y) = (sg = ''-'', y)"
  by (auto simp: skip_sign_def cur_def NextChar_def Let_def)

lemma before_point_all:
  "\<forall>c\<in>set d. isdigit c \<Longrightarrow> \<not> isdigit (cur z) \<Longrightarrow>
   before_point ops v (d @ z) = (fst (before_point ops v d), z)"
proof (induction d arbitrary: v)
  case Nil
  then show ?case by (cases z) (simp_all add: cur_def)
next
  case (Cons a d)
  then show ?case by simp
qed

lemma after_point_all_zeros:
  "\<not> isdigit (cur t) \<Longrightarrow>
   after_point (0, k, False) (replicate n (CHR ''0'') @ t) = ((0, k + of_nat n, False), t)"
proof (induction n arbitrary: k)
  case 0
  then show ?case by (cases t) (simp_all add: cur_def)
next
  case (Suc n)
  then show ?case by (simp add: isdigit_0 digit_of_def ULONG_MAX_def algebra_simps)
qed

lemma cur_append: "cur (a @ b) = (if a = [] then cur b else cur a)"
  by (cases a) (simp_all add: cur_def)

lemma cur_Cons: "cur (c # s) = c"
  by (simp add: cur_def)

lemma cur_digits: "\<forall>c\<in>set d. isdigit c \<Longrightarrow> d \<noteq> [] \<Longrightarrow> isdigit (cur d)"
  by (cases d) (simp_all add: cur_def)

lemma SafeStrtod_zero_fraction_general:
  assumes ws: "\<forall>c\<in>set ws. c = CHR '' '' \<or> c = CHR 0x09"
    and sg: "sg = [] \<or> sg = ''+'' \<or> sg = ''-''"
    and d: "\<forall>c\<in>set d. isdigit c"
    and f: "fr = [] \<or> fr = CHR ''.'' # replicate n (CHR ''0'')"
    and t: "\<not> isdigit (cur t)"
    and tp: "fr = [] \<longrightarrow> cur t \<noteq> CHR ''.''"
    and ts: "sg = [] \<and> d = [] \<and> fr = [] \<longrightarrow>
               cur t \<noteq> CHR '' '' \<and> cur t \<noteq> CHR 0x09 \<and> cur t \<noteq> CHR ''+'' \<and> cur t \<noteq> CHR ''-''"
  shows "SafeStrtod ops (ws @ sg @ d @ fr @ t) =
     (if sg = ''-''
      then d_neg ops (d_TimesPowerOf10 ops (fst (before_point ops (d_of ops 0) d))
                        (sint (fst (strtod_exponent t))))
      else d_TimesPowerOf10 ops (fst (before_point ops (d_of ops 0) d))
             (sint (fst (strtod_exponent t))),
      snd (strtod_exponent t))"
proof -
  have np: "\<not> isdigit (CHR ''.'')" by (simp add: isdigit_def)
  have cy: "cur (d @ fr @ t) = (if d \<noteq> [] then cur d else if fr \<noteq> [] then CHR ''.'' else cur t)"
    using f by (auto simp: cur_append cur_Cons)
  have dy: "d \<noteq> [] \<Longrightarrow> isdigit (cur d)" using cur_digits [OF d] by simp
  have ny: "sg = [] \<longrightarrow> cur (d @ fr @ t) \<noteq> CHR '' '' \<and> cur (d @ fr @ t) \<noteq> CHR 0x09
              \<and> cur (d @ fr @ t) \<noteq> CHR ''+'' \<and> cur (d @ fr @ t) \<noteq> CHR ''-''"
    using cy ts dy isdigit_not_special [of "cur d"] by auto
  have nb: "cur (sg @ d @ fr @ t) \<noteq> CHR '' '' \<and> cur (sg @ d @ fr @ t) \<noteq> CHR 0x09"
    using sg ny by (auto simp: cur_append cur_Cons)
  have 1: "skip_white (ws @ sg @ d @ fr @ t) = sg @ d @ fr @ t"
    using nb by (intro skip_white_past_blanks [OF ws]) simp_all
  have 2: "skip_sign (sg @ d @ fr @ t) = (sg = ''-'', d @ fr @ t)"
    using ny by (intro skip_sign_at [OF sg]) simp
  have cz: "\<not> isdigit (cur (fr @ t))"
    using f t np by (auto simp: cur_append cur_Cons)
  have 3: "before_point ops v (d @ fr @ t) = (fst (before_point ops v d), fr @ t)" for v
    using cz by (rule before_point_all [OF d])
  have 4: "(if cur (fr @ t) = CHR ''.'' then after_point (0, 0, False) (NextChar (fr @ t))
            else ((0, 0, False), fr @ t))
        = ((0, (if fr = [] then 0 else of_nat n), False), t)"
    using f tp after_point_all_zeros [OF t, of 0 n]
    by (auto simp: cur_append cur_Cons NextChar_def)
  show ?thesis
    unfolding SafeStrtod_def
    by (simp only: 1 2 3 4 Let_def prod.case) (simp add: case_prod_beta)
qed

lemmas strtod_simps =
  SafeStrtod_def skip_sign_def strtod_exponent_def cur_def NextChar_def isdigit_def
  digit_of_def toupper_E_iff ULONG_MAX_def exact_def TimesPowerOf10_exact_def Let_def

text \<open>
  C10. Whenever the value after the decimal point is zero, because there is no
  fraction or because its digits are all zeros, the result of \<open>SafeStrtod\<close> is
  \<open>TimesPowerOf10\<close> of the value before the point and the exponent, with the sign: on
  every input made of blanks \<open>ws\<close>, an optional sign \<open>sg\<close>, digits \<open>d\<close>, a fraction
  \<open>fr\<close> that is empty or a point and \<open>n\<close> zeros, and a rest \<open>t\<close> that does not go on
  with a digit, whether \<open>t\<close> holds an exponent or not. The count of digits after the
  point has no part in it: the input gives what it gives without its fraction, and
  \<open>d.0...0e r\<close> gives what \<open>de r\<close> gives. This holds for every arithmetic of doubles.
\<close>

theorem zero_fraction_ignored:
  "((\<forall>c\<in>set d. isdigit c) \<and> (e = CHR ''E'' \<or> e = CHR ''e'') \<longrightarrow>
     SafeStrtod ops (d @ CHR ''.'' # replicate n (CHR ''0'') @ e # r) = SafeStrtod ops (d @ e # r)
     \<and> fst (SafeStrtod ops (d @ e # r)) =
         d_TimesPowerOf10 ops (fst (before_point ops (d_of ops 0) d))
           (sint (fst (strtod_exponent (e # r)))))
   \<and> ((\<forall>b\<in>set ws. b = CHR '' '' \<or> b = CHR 0x09)
        \<and> (sg = [] \<or> sg = ''+'' \<or> sg = ''-'')
        \<and> (\<forall>c\<in>set d. isdigit c)
        \<and> (fr = [] \<or> fr = CHR ''.'' # replicate n (CHR ''0''))
        \<and> \<not> isdigit (cur t)
        \<and> (fr = [] \<longrightarrow> cur t \<noteq> CHR ''.'')
        \<and> (sg = [] \<and> d = [] \<and> fr = [] \<longrightarrow>
              cur t \<noteq> CHR '' '' \<and> cur t \<noteq> CHR 0x09 \<and> cur t \<noteq> CHR ''+'' \<and> cur t \<noteq> CHR ''-'')
      \<longrightarrow>
      SafeStrtod ops (ws @ sg @ d @ fr @ t) =
        (if sg = ''-''
         then d_neg ops (d_TimesPowerOf10 ops (fst (before_point ops (d_of ops 0) d))
                           (sint (fst (strtod_exponent t))))
         else d_TimesPowerOf10 ops (fst (before_point ops (d_of ops 0) d))
                (sint (fst (strtod_exponent t))),
         snd (strtod_exponent t)))
   \<and> ((\<forall>b\<in>set ws. b = CHR '' '' \<or> b = CHR 0x09)
        \<and> (sg = [] \<or> sg = ''+'' \<or> sg = ''-'')
        \<and> (\<forall>c\<in>set d. isdigit c)
        \<and> \<not> isdigit (cur t) \<and> cur t \<noteq> CHR ''.''
        \<and> (sg = [] \<and> d = [] \<longrightarrow>
              cur t \<noteq> CHR '' '' \<and> cur t \<noteq> CHR 0x09 \<and> cur t \<noteq> CHR ''+'' \<and> cur t \<noteq> CHR ''-'')
      \<longrightarrow>
      SafeStrtod ops (ws @ sg @ d @ (CHR ''.'' # replicate n (CHR ''0'')) @ t) =
        SafeStrtod ops (ws @ sg @ d @ [] @ t))"
proof -
  have a: "SafeStrtod ops (d @ CHR ''.'' # replicate n (CHR ''0'') @ e # r) = SafeStrtod ops (d @ e # r)
     \<and> fst (SafeStrtod ops (d @ e # r)) =
         d_TimesPowerOf10 ops (fst (before_point ops (d_of ops 0) d))
           (sint (fst (strtod_exponent (e # r))))"
    if "\<forall>c\<in>set d. isdigit c" "e = CHR ''E'' \<or> e = CHR ''e''"
    using that by (auto simp: SafeStrtod_integer SafeStrtod_zero_fraction)
  have b: "SafeStrtod ops (ws @ sg @ d @ fr @ t) =
        (if sg = ''-''
         then d_neg ops (d_TimesPowerOf10 ops (fst (before_point ops (d_of ops 0) d))
                           (sint (fst (strtod_exponent t))))
         else d_TimesPowerOf10 ops (fst (before_point ops (d_of ops 0) d))
                (sint (fst (strtod_exponent t))),
         snd (strtod_exponent t))"
    if "\<forall>b\<in>set ws. b = CHR '' '' \<or> b = CHR 0x09" "sg = [] \<or> sg = ''+'' \<or> sg = ''-''"
      "\<forall>c\<in>set d. isdigit c" "fr = [] \<or> fr = CHR ''.'' # replicate n (CHR ''0'')"
      "\<not> isdigit (cur t)" "fr = [] \<longrightarrow> cur t \<noteq> CHR ''.''"
      "sg = [] \<and> d = [] \<and> fr = [] \<longrightarrow>
         cur t \<noteq> CHR '' '' \<and> cur t \<noteq> CHR 0x09 \<and> cur t \<noteq> CHR ''+'' \<and> cur t \<noteq> CHR ''-''"
    using that by (rule SafeStrtod_zero_fraction_general)
  have c: "SafeStrtod ops (ws @ sg @ d @ (CHR ''.'' # replicate n (CHR ''0'')) @ t) =
        SafeStrtod ops (ws @ sg @ d @ [] @ t)"
    if w: "\<forall>b\<in>set ws. b = CHR '' '' \<or> b = CHR 0x09" and s: "sg = [] \<or> sg = ''+'' \<or> sg = ''-''"
      and d: "\<forall>c\<in>set d. isdigit c" and t: "\<not> isdigit (cur t)" and tp: "cur t \<noteq> CHR ''.''"
      and ts: "sg = [] \<and> d = [] \<longrightarrow>
         cur t \<noteq> CHR '' '' \<and> cur t \<noteq> CHR 0x09 \<and> cur t \<noteq> CHR ''+'' \<and> cur t \<noteq> CHR ''-''"
  proof -
    have 1: "SafeStrtod ops (ws @ sg @ d @ (CHR ''.'' # replicate n (CHR ''0'')) @ t) =
        (if sg = ''-''
         then d_neg ops (d_TimesPowerOf10 ops (fst (before_point ops (d_of ops 0) d))
                           (sint (fst (strtod_exponent t))))
         else d_TimesPowerOf10 ops (fst (before_point ops (d_of ops 0) d))
                (sint (fst (strtod_exponent t))),
         snd (strtod_exponent t))"
      by (rule SafeStrtod_zero_fraction_general [OF w s d _ t, where n = n]) simp_all
    have 2: "SafeStrtod ops (ws @ sg @ d @ [] @ t) =
        (if sg = ''-''
         then d_neg ops (d_TimesPowerOf10 ops (fst (before_point ops (d_of ops 0) d))
                           (sint (fst (strtod_exponent t))))
         else d_TimesPowerOf10 ops (fst (before_point ops (d_of ops 0) d))
                (sint (fst (strtod_exponent t))),
         snd (strtod_exponent t))"
      using tp ts by (intro SafeStrtod_zero_fraction_general [OF w s d _ t, where n = n]) simp_all
    from 1 2 show ?thesis by (simp only:)
  qed
  from a b c show ?thesis by blast
qed

theorem zero_fraction_ignored_witness:
  "SafeStrtod exact (''12'' @ CHR ''.'' # replicate 3 (CHR ''0'') @ CHR ''e'' # ''2'') = (1200, [])
   \<and> SafeStrtod exact (''12'' @ CHR ''e'' # ''2'') = (1200, [])
   \<and> SafeStrtod exact ('' '' @ ''-'' @ ''12'' @ (CHR ''.'' # replicate 1 (CHR ''0'')) @ ''e1'') = (- 120, [])
   \<and> SafeStrtod exact ([] @ [] @ ''12'' @ (CHR ''.'' # replicate 3 (CHR ''0'')) @ []) = (12, [])
   \<and> SafeStrtod exact ([] @ [] @ ''12'' @ [] @ []) = (12, [])"
  using
    zero_fraction_ignored [where d = "''12''" and e = "CHR ''e''" and ops = exact and n = 3
      and r = "''2''" and ws = "[]" and sg = "[]" and fr = "CHR ''.'' # replicate 3 (CHR ''0'')"
      and t = "[]"]
    zero_fraction_ignored [where d = "''12''" and e = "CHR ''e''" and ops = exact and n = 1
      and r = "''2''" and ws = "'' ''" and sg = "''-''" and fr = "CHR ''.'' # replicate 1 (CHR ''0'')"
      and t = "''e1''"]
  by (simp add: strtod_simps)

section \<open>GetFloat\<close>

lemma sint_small_cases:
  fixes w :: "32 word"
  assumes "- 12 \<le> sint w" "sint w \<le> - 1"
  shows "w \<in> {- 1, - 2, - 3, - 4, - 5, - 6, - 7, - 8, - 9, - 10, - 11, - 12}"
proof -
  from assms have "sint w \<in> {- 1, - 2, - 3, - 4, - 5, - 6, - 7, - 8, - 9, - 10, - 11, - 12}"
    by simp arith
  moreover have "w = word_of_int (sint w)" by simp
  ultimately show ?thesis by (metis (no_types, lifting) insert_iff empty_iff of_int_numeral of_int_minus of_int_1)
qed

lemma table_entry:
  fixes w :: "32 word"
  assumes "- 12 \<le> sint w" "sint w \<le> - 1"
  shows "inversePowersOfTen ops ! unat (- w - 1) = d_of ops (10 powi sint w)"
proof -
  from sint_small_cases [OF assms] consider
    "w = - 1" | "w = - 2" | "w = - 3" | "w = - 4" | "w = - 5" | "w = - 6"
    | "w = - 7" | "w = - 8" | "w = - 9" | "w = - 10" | "w = - 11" | "w = - 12"
    by auto
  then show ?thesis
    by cases (simp_all add: inversePowersOfTen_def power_int_minus)
qed

lemma table_length: "length (inversePowersOfTen ops) = 12"
  by (simp add: inversePowersOfTen_def)

lemma GetFloat_eq_spec: "GetFloat ops st = GetFloat_spec ops st"
proof -
  define tw where "tw = (if twos st <s fives st then twos st else fives st)"
  have tens: "min (sint (twos st)) (sint (fives st)) = sint tw"
    by (simp add: tw_def word_sless_alt min_def)
  have rng: "tw <s 0 \<and> - 12 \<le>s tw \<longleftrightarrow> - 12 \<le> sint tw \<and> sint tw \<le> - 1"
    by (auto simp: word_sless_alt word_sle_eq)
  note conv = word_sless_alt [of "twos st" "fives st"] word_sless_alt [of "fives st" "twos st"]
  show ?thesis
  proof (cases "- 12 \<le> sint tw \<and> sint tw \<le> - 1")
    case True
    then have nz: "tw \<noteq> 0" by auto
    from True have e: "inversePowersOfTen ops ! unat (- tw - 1) = d_of ops (10 powi sint tw)"
      by (intro table_entry) auto
    show ?thesis
      unfolding GetFloat_def GetFloat_spec_def Let_def tw_def [symmetric] table_length tens
      by (simp add: conv rng True nz e)
  next
    case False
    show ?thesis
      unfolding GetFloat_def GetFloat_spec_def Let_def tw_def [symmetric] table_length tens
      by (simp add: conv rng False sint_eq_0_iff)
  qed
qed

subsection \<open>Rounding at the values of the two literals\<close>

lemma binary_round_at:
  assumes "0 < x" "2 powi e \<le> x" "x < 2 powi (e + 1)" "emin \<le> e"
  shows "binary_round p emin x =
         of_int (round_half_even (x / 2 powi (e - int p + 1))) * 2 powi (e - int p + 1)"
proof -
  have a: "(2::real) powr real_of_int e = 2 powi e"
    by (rule powr_real_of_int') simp_all
  have b: "(2::real) powr real_of_int (e + 1) = 2 powi (e + 1)"
    by (rule powr_real_of_int') simp_all
  have "(2::real) powr real_of_int e \<le> x \<and> x < 2 powr real_of_int (e + 1)"
    unfolding a b using assms by simp
  then have "\<lfloor>log 2 x\<rfloor> = e"
    using assms(1) by (subst floor_log_eq_powr_iff) simp_all
  then show ?thesis using assms by (simp add: binary_round_def Let_def max_def)
qed

lemma b64_15: "binary64 15 = 15"
  unfolding binary64_def
  by (subst binary_round_at [where e = 3]) (simp_all add: round_half_even_def power_int_minus Let_def)

lemma b64_10: "binary64 10 = 10"
  unfolding binary64_def
  by (subst binary_round_at [where e = 3]) (simp_all add: round_half_even_def power_int_minus Let_def)

lemma b64_150: "binary64 150 = 150"
  unfolding binary64_def
  by (subst binary_round_at [where e = 7]) (simp_all add: round_half_even_def power_int_minus Let_def)

lemma b32_150: "binary32 150 = 150"
  unfolding binary32_def
  by (subst binary_round_at [where e = 7]) (simp_all add: round_half_even_def power_int_minus Let_def)

lemma b64_milli: "binary64 (1 / 1000) = 4611686018427388 / 2 ^ 62"
  unfolding binary64_def
  by (subst binary_round_at [where e = "- 10"]) (simp_all add: round_half_even_def power_int_minus Let_def)

lemma b64_prod: "binary64 (15 * (4611686018427388 / 2 ^ 62)) = 8646911284551352 / 2 ^ 59"
  unfolding binary64_def
  by (subst binary_round_at [where e = "- 7"]) (simp_all add: round_half_even_def power_int_minus Let_def)

lemma b32_result: "binary32 (8646911284551352 / 2 ^ 59) = 16106127 / 2 ^ 30"
  unfolding binary32_def
  by (subst binary_round_at [where e = "- 7"]) (simp_all add: round_half_even_def power_int_minus Let_def)

lemma b32_0015: "binary32 0.015 = 16106127 / 2 ^ 30"
  unfolding binary32_def
  by (subst binary_round_at [where e = "- 7"]) (simp_all add: round_half_even_def power_int_minus Let_def)

text \<open>
  C2. \<open>GetFloat\<close> computes what the specification describes, \<open>GetFloat_spec\<close>, in every
  arithmetic of doubles and floats: the mantissa as a double; with \<open>tens\<close> the minimum of
  the two exponents, times the table's entry for \<open>10^tens\<close> when \<open>tens\<close> is from \<open>-12\<close> to
  \<open>-1\<close>, times \<open>pow(10, tens)\<close> for any other nonzero \<open>tens\<close>; times \<open>5\<close> when \<open>fives\<close> is
  the larger exponent and times \<open>2\<close> when \<open>twos\<close> is; the sign applied to the float.
  Parsing \<open>1.5e2\<close> gives \<open>15 * pow(10, 1)\<close>: \<open>150\<close> in exact arithmetic, and the float
  \<open>150\<close> in IEEE arithmetic when \<open>pow(10, 1)\<close> is \<open>10\<close>. Parsing \<open>1.5e-2\<close> gives \<open>15\<close>
  times the table's third entry, the constant \<open>0.001\<close>: \<open>0.015\<close> in exact arithmetic, and
  in IEEE arithmetic the float nearest to \<open>0.015\<close>.
\<close>

theorem GetFloat_as_specified:
  "GetFloat ops st = GetFloat_spec ops st
   \<and> (case Accumulate ''1.5e2'' acceptNegative True of
         (ok, st', rest) \<Rightarrow>
           ok \<and> GetFloat ops st' = f_of_d ops (d_mul ops (d_of ops 15) (d_pow ops (d_of ops 10) 1))
           \<and> GetFloat exact st' = 150
           \<and> (pow 10 1 = 10 \<longrightarrow> GetFloat (ieee pow tp) st' = 150))
   \<and> (case Accumulate ''1.5e-2'' acceptNegative True of
         (ok, st', rest) \<Rightarrow>
           ok \<and> GetFloat ops st' = f_of_d ops (d_mul ops (d_of ops 15) (inversePowersOfTen ops ! 2))
           \<and> inversePowersOfTen ops ! 2 = d_of ops 0.001
           \<and> GetFloat exact st' = 0.015
           \<and> GetFloat (ieee pow tp) st' = binary32 0.015)"
proof -
  have a: "Accumulate ''1.5e2'' acceptNegative True =
      (True, reset\<lparr>lvalue := 15, fives := 1, twos := 1, hadDecimalPoint := True,
                   hadExponent := True\<rparr>, [])"
    by (simp add: run_simps)
  have b: "Accumulate ''1.5e-2'' acceptNegative True =
      (True, reset\<lparr>lvalue := 15, fives := - 3, twos := - 3, hadDecimalPoint := True,
                   hadExponent := True\<rparr>, [])"
    by (simp add: run_simps)
  have t: "inversePowersOfTen ops ! 2 = d_of ops 0.001"
    by (simp add: inversePowersOfTen_def)
  have a1: "GetFloat ops (reset\<lparr>lvalue := 15, fives := 1, twos := 1, hadDecimalPoint := True,
                   hadExponent := True\<rparr>)
      = f_of_d ops (d_mul ops (d_of ops 15) (d_pow ops (d_of ops 10) 1))" for ops :: "('x, 'y) arith"
    by (simp add: GetFloat_def reset_def table_length word_sless_alt word_sle_eq)
  have b1: "GetFloat ops (reset\<lparr>lvalue := 15, fives := - 3, twos := - 3, hadDecimalPoint := True,
                   hadExponent := True\<rparr>)
      = f_of_d ops (d_mul ops (d_of ops 15) (inversePowersOfTen ops ! 2))" for ops :: "('x, 'y) arith"
    by (simp add: GetFloat_def reset_def table_length word_sless_alt word_sle_eq)
  have a2: "f_of_d exact (d_mul exact (d_of exact 15) (d_pow exact (d_of exact 10) 1)) = 150"
    by (simp add: exact_def)
  have b2: "f_of_d exact (d_mul exact (d_of exact 15) (inversePowersOfTen exact ! 2)) = 0.015"
    by (simp add: exact_def inversePowersOfTen_def)
  have a3: "f_of_d (ieee pow tp)
              (d_mul (ieee pow tp) (d_of (ieee pow tp) 15)
                 (d_pow (ieee pow tp) (d_of (ieee pow tp) 10) 1)) = 150"
    if "pow 10 1 = 10"
    using that by (simp add: ieee_def b64_15 b64_10 b64_150 b32_150)
  have b3: "f_of_d (ieee pow tp)
              (d_mul (ieee pow tp) (d_of (ieee pow tp) 15)
                 (inversePowersOfTen (ieee pow tp) ! 2)) = binary32 0.015"
  proof -
    have "f_of_d (ieee pow tp)
              (d_mul (ieee pow tp) (d_of (ieee pow tp) 15)
                 (inversePowersOfTen (ieee pow tp) ! 2))
          = binary32 (binary64 (15 * binary64 (1 / 1000)))"
      by (simp add: ieee_def inversePowersOfTen_def b64_15)
    also have "\<dots> = 16106127 / 2 ^ 30"
      unfolding b64_milli b64_prod b32_result ..
    also have "\<dots> = binary32 0.015"
      unfolding b32_0015 ..
    finally show ?thesis .
  qed
  show ?thesis
    using GetFloat_eq_spec [of ops st] t a2 b2 a3 b3
    by (simp only: a b a1 b1 prod.case) simp
qed

theorem GetFloat_as_specified_witness:
  "GetFloat exact (reset\<lparr>lvalue := 7, fives := - 13, twos := - 14, isNegative := True\<rparr>)
     = - (7 * 10 powi (- 14) * 5)
   \<and> GetFloat (ieee (\<lambda>x n. binary64 (x powi n)) (\<lambda>x n. x))
        (fst (snd (Accumulate ''1.5e2'' False True))) = 150
   \<and> GetFloat exact (fst (snd (Accumulate ''1.5e-2'' False True))) = 0.015"
  using
    GetFloat_as_specified [where ops = exact
      and st = "reset\<lparr>lvalue := 7, fives := - 13, twos := - 14, isNegative := True\<rparr>"
      and acceptNegative = False and pow = "\<lambda>x n. binary64 (x powi n)" and tp = "\<lambda>x n. x"]
  by (simp add: GetFloat_spec_def exact_def reset_def b64_10 split: prod.splits)

end
